theory Spec2Isabelle
  imports Main
begin

section \<open>The helper module \<open>03-buttons/bydariogamer/utils.py\<close>\<close>

text \<open>
  The module is glue code over pygame: three memoised loaders (\<open>load_image\<close>,
  \<open>font\<close>, \<open>text\<close>), a centred blit and the memoised nine-patch compositor.
  The functions of the module are translated one by one.  What they call in pygame,
  pathlib and functools is library code; it is modelled here as far as the module uses
  it, following the library's documented behaviour, with pygame initialised and a display
  mode set (as the challenge's main loop does before any submission code runs).
  Surfaces have no colour key and no surface-wide alpha, only an optional per-pixel
  alpha channel, and memory for a new surface is always there.  Arguments are passed by
  position.
\<close>

subsection \<open>Exceptions\<close>

datatype py_error =
  FileNotFoundError | ValueError | TypeError | IndexError | OverflowError | PygameError

text \<open>Sequencing of calls that may raise: the first exception ends the computation.\<close>

definition then_do :: "py_error + 'a \<Rightarrow> ('a \<Rightarrow> py_error + 'b) \<Rightarrow> py_error + 'b" where
  "then_do m f = (case m of Inl e \<Rightarrow> Inl e | Inr x \<Rightarrow> f x)"

subsection \<open>Surfaces as objects on a heap\<close>

text \<open>
  A pixel is (red, green, blue, alpha), each channel in 0..255.  A \<open>pygame.Surface\<close> is
  an object; a reference to it is its index in the heap, so that two references are the
  same object exactly when they are equal.  A surface either owns its pixel memory, or is
  a subsurface: a window into the memory of the surface that owns it, at an offset.
  Writing through a subsurface writes the owner's memory.
\<close>

type_synonym pixel = "int \<times> int \<times> int \<times> int"

type_synonym ref = nat

datatype memory = Own "int \<Rightarrow> int \<Rightarrow> pixel" | View ref int int

record surface =
  width :: int
  height :: int
  srcalpha :: bool
  mem :: memory

type_synonym heap = "surface list"

definition owner :: "heap \<Rightarrow> ref \<Rightarrow> ref \<times> int \<times> int" where
  "owner h r = (case mem (h ! r) of Own _ \<Rightarrow> (r, 0, 0) | View p ox oy \<Rightarrow> (p, ox, oy))"

definition raw :: "heap \<Rightarrow> ref \<Rightarrow> int \<Rightarrow> int \<Rightarrow> pixel" where
  "raw h p = (case mem (h ! p) of Own f \<Rightarrow> f | View _ _ _ \<Rightarrow> (\<lambda>x y. (0, 0, 0, 0)))"

text \<open>A surface without per-pixel alpha reads as fully opaque.\<close>

definition with_alpha :: "bool \<Rightarrow> pixel \<Rightarrow> pixel" where
  "with_alpha flag px = (case px of (r, g, b, a) \<Rightarrow> (r, g, b, if flag then a else 255))"

definition read_px :: "heap \<Rightarrow> ref \<Rightarrow> int \<Rightarrow> int \<Rightarrow> pixel" where
  "read_px h r x y =
     (case owner h r of (p, ox, oy) \<Rightarrow> with_alpha (srcalpha (h ! r)) (raw h p (x + ox) (y + oy)))"

text \<open>\<open>Surface.get_at((x, y))\<close>: raises IndexError outside the surface.\<close>

definition get_at :: "heap \<Rightarrow> ref \<Rightarrow> int \<times> int \<Rightarrow> py_error + pixel" where
  "get_at h r pos =
     (case pos of (x, y) \<Rightarrow>
        if 0 \<le> x \<and> x < width (h ! r) \<and> 0 \<le> y \<and> y < height (h ! r)
        then Inr (read_px h r x y) else Inl IndexError)"

text \<open>
  Well-formed heaps: sizes are not negative, and a subsurface lies inside a surface that
  owns its memory and was created before it.
\<close>

definition wf_surface :: "heap \<Rightarrow> surface \<Rightarrow> bool" where
  "wf_surface h s =
     (0 \<le> width s \<and> 0 \<le> height s \<and>
      (case mem s of
         Own _ \<Rightarrow> True
       | View p ox oy \<Rightarrow>
           p < length h \<and> (case mem (h ! p) of Own _ \<Rightarrow> True | View _ _ _ \<Rightarrow> False) \<and>
           0 \<le> ox \<and> 0 \<le> oy \<and> ox + width s \<le> width (h ! p) \<and> oy + height s \<le> height (h ! p)))"

definition wf_heap :: "heap \<Rightarrow> bool" where
  "wf_heap h = list_all (wf_surface h) h"

subsection \<open>The pygame calls the module makes\<close>

text \<open>
  What the module reads from its environment: \<open>ROOT_DIR\<close> and \<open>SIZE\<close> of
  \<open>wclib.constants\<close>, its own \<open>__file__\<close>, the decoded image and font files on disk, and
  the two pygame algorithms whose output pixels are the library's choice (the resampling
  filter of \<open>pygame.transform.scale\<close> and the glyph rasteriser of \<open>Font.render\<close>).
  A path is the list of its components; \<open>p / name\<close> appends one.
\<close>

type_synonym path = "string list"

record image_file =
  img_width :: int
  img_height :: int
  img_alpha :: bool
  img_pixels :: "int \<Rightarrow> int \<Rightarrow> pixel"

record pyfont =
  ttf :: string
  pt_size :: int

record env =
  ROOT_DIR :: path
  SIZE :: "int \<times> int"
  FILE :: path
  png_files :: "path \<Rightarrow> image_file option"
  ttf_files :: "path \<Rightarrow> string option"
  resample :: "(int \<Rightarrow> int \<Rightarrow> pixel) \<Rightarrow> int \<times> int \<Rightarrow> int \<times> int \<Rightarrow> int \<Rightarrow> int \<Rightarrow> pixel"
  rasterise :: "pyfont \<Rightarrow> string \<Rightarrow> pixel \<Rightarrow> (int \<times> int) \<times> (int \<Rightarrow> int \<Rightarrow> pixel)"

text \<open>Allocation of a new surface object: its reference is the next free index.\<close>

definition alloc :: "surface \<Rightarrow> heap \<Rightarrow> ref \<times> heap" where
  "alloc s h = (length h, h @ [s])"

text \<open>\<open>pygame.Surface(size, pygame.SRCALPHA)\<close>: a new, fully transparent surface;
  pygame.error for a negative size.\<close>

definition Surface_SRCALPHA :: "int \<times> int \<Rightarrow> heap \<Rightarrow> py_error + ref \<times> heap" where
  "Surface_SRCALPHA sz h =
     (case sz of (w, ht) \<Rightarrow>
        if w < 0 \<or> ht < 0 then Inl PygameError
        else Inr (alloc \<lparr>width = w, height = ht, srcalpha = True,
                         mem = Own (\<lambda>x y. (0, 0, 0, 0))\<rparr> h))"

text \<open>\<open>surface.subsurface(x, y, w, h)\<close>: a new surface object sharing the pixels of
  its parent; ValueError when the rectangle is not inside the parent.\<close>

definition subsurface :: "ref \<Rightarrow> int \<times> int \<times> int \<times> int \<Rightarrow> heap \<Rightarrow> py_error + ref \<times> heap" where
  "subsurface r rect h =
     (case rect of (x, y, w, ht) \<Rightarrow>
        if x < 0 \<or> y < 0 \<or> x + w > width (h ! r) \<or> y + ht > height (h ! r) then Inl ValueError
        else if w < 0 \<or> ht < 0 then Inl PygameError
        else (case owner h r of (p, ox, oy) \<Rightarrow>
                Inr (alloc \<lparr>width = w, height = ht, srcalpha = srcalpha (h ! r),
                             mem = View p (ox + x) (oy + y)\<rparr> h)))"

text \<open>\<open>pygame.transform.scale(surface, (w, h))\<close>: a new surface of the requested size
  in the format of the source; ValueError for a negative size.\<close>

definition transform_scale :: "env \<Rightarrow> ref \<Rightarrow> int \<times> int \<Rightarrow> heap \<Rightarrow> py_error + ref \<times> heap" where
  "transform_scale E r sz h =
     (case sz of (w, ht) \<Rightarrow>
        if w < 0 \<or> ht < 0 then Inl ValueError
        else Inr (alloc \<lparr>width = w, height = ht, srcalpha = srcalpha (h ! r),
                         mem = Own (resample E (read_px h r) (width (h ! r), height (h ! r)) (w, ht))\<rparr> h))"

text \<open>
  Blitting.  A source with per-pixel alpha is blended by pygame's own blitter: onto a
  destination pixel of alpha 0 the source pixel is copied, otherwise each colour channel
  is \<open>((s - d) * sA + s) >> 8) + d\<close> and the alpha is \<open>sA + dA - sA * dA / 255\<close>.  A source
  without per-pixel alpha is copied, opaque.
\<close>

definition blend_comp :: "int \<Rightarrow> int \<Rightarrow> int \<Rightarrow> int" where
  "blend_comp sC dC sA = ((sC - dC) * sA + sC) div 256 + dC"

definition blend :: "pixel \<Rightarrow> pixel \<Rightarrow> pixel" where
  "blend s d =
     (case s of (sR, sG, sB, sA) \<Rightarrow> case d of (dR, dG, dB, dA) \<Rightarrow>
        if dA \<noteq> 0
        then (blend_comp sR dR sA, blend_comp sG dG sA, blend_comp sB dB sA,
              sA + dA - (sA * dA) div 255)
        else (sR, sG, sB, sA))"

definition blit_px :: "bool \<Rightarrow> pixel \<Rightarrow> pixel \<Rightarrow> pixel" where
  "blit_px src_alpha s d = (if src_alpha then blend s d else s)"

text \<open>\<open>dest.blit(source, (dx, dy))\<close>: the source is drawn unscaled with its top-left
  corner at (dx, dy) of the destination, clipped to the destination.\<close>

definition blit :: "ref \<Rightarrow> ref \<Rightarrow> int \<times> int \<Rightarrow> heap \<Rightarrow> heap" where
  "blit dest source pos h =
     (case pos of (dx, dy) \<Rightarrow> case owner h dest of (p, ox, oy) \<Rightarrow>
        h[p := (h ! p)\<lparr>mem := Own (\<lambda>X Y.
            let x = X - ox; y = Y - oy in
            if 0 \<le> x \<and> x < width (h ! dest) \<and> 0 \<le> y \<and> y < height (h ! dest) \<and>
               dx \<le> x \<and> x < dx + width (h ! source) \<and> dy \<le> y \<and> y < dy + height (h ! source)
            then blit_px (srcalpha (h ! source)) (read_px h source (x - dx) (y - dy))
                   (with_alpha (srcalpha (h ! dest)) (raw h p X Y))
            else raw h p X Y)\<rparr>])"

text \<open>
  pygame keeps the numbers it is given in C variables of type \<open>int\<close>, of 32 bits:
  \<open>fits_c_int\<close> are the numbers that one holds, and \<open>c_int\<close> is what it holds of any
  number, the number wrapped around into that range.
\<close>

definition fits_c_int :: "int \<Rightarrow> bool" where
  "fits_c_int v = (- 2147483648 \<le> v \<and> v < 2147483648)"

definition c_int :: "int \<Rightarrow> int" where
  "c_int v = (v + 2147483648) mod 4294967296 - 2147483648"

text \<open>\<open>pygame.Rect(t)\<close> for a tuple \<open>t\<close> of four integers: the rectangle holds them as C
  integers.\<close>

definition pygame_Rect :: "int \<times> int \<times> int \<times> int \<Rightarrow> int \<times> int \<times> int \<times> int" where
  "pygame_Rect t = (case t of (x, y, w, ht) \<Rightarrow> (c_int x, c_int y, c_int w, c_int ht))"

subsection \<open>\<open>ninepatch\<close>\<close>

text \<open>The body of \<open>ninepatch(surface, rect)\<close>, statement by statement; the argument
  \<open>rect\<close> is a tuple (x, y, w, h).\<close>

definition ninepatch_body :: "env \<Rightarrow> ref \<times> (int \<times> int \<times> int \<times> int) \<Rightarrow> heap \<Rightarrow> py_error + ref \<times> heap" where
  "ninepatch_body E args h0 =
     (case args of (surface, rect) \<Rightarrow>
      case pygame_Rect rect of (rect_x, rect_y, rect_w, rect_h) \<Rightarrow>
      then_do (Surface_SRCALPHA (rect_w, rect_h) h0) (\<lambda>(result, h).
      let subsurf_w = width (h ! surface) div 3;
          subsurf_h = height (h ! surface) div 3 in
      then_do (subsurface surface (0, 0, subsurf_w, subsurf_h) h) (\<lambda>(a1, h).
      then_do (subsurface surface (subsurf_w, 0, subsurf_w, subsurf_h) h) (\<lambda>(a2, h).
      then_do (subsurface surface (2 * subsurf_w, 0, subsurf_w, subsurf_h) h) (\<lambda>(a3, h).
      then_do (subsurface surface (0, subsurf_h, subsurf_w, subsurf_h) h) (\<lambda>(b1, h).
      then_do (subsurface surface (subsurf_w, subsurf_h, subsurf_w, subsurf_h) h) (\<lambda>(b2, h).
      then_do (subsurface surface (2 * subsurf_w, subsurf_h, subsurf_w, subsurf_h) h) (\<lambda>(b3, h).
      then_do (subsurface surface (0, 2 * subsurf_h, subsurf_w, subsurf_h) h) (\<lambda>(c1, h).
      then_do (subsurface surface (subsurf_w, 2 * subsurf_h, subsurf_w, subsurf_h) h) (\<lambda>(c2, h).
      then_do (subsurface surface (2 * subsurf_w, 2 * subsurf_h, subsurf_w, subsurf_h) h) (\<lambda>(c3, h).
      let h = blit result a1 (0, 0) h in
      then_do (transform_scale E a2 (rect_w - 2 * subsurf_w, subsurf_h) h) (\<lambda>(s, h).
      let h = blit result s (subsurf_w, 0) h;
          h = blit result a3 (rect_w - subsurf_w, 0) h in
      then_do (transform_scale E b1 (subsurf_w, rect_h - 2 * subsurf_h) h) (\<lambda>(s, h).
      let h = blit result s (0, subsurf_h) h in
      then_do (transform_scale E b2 (rect_w - 2 * subsurf_w, rect_h - 2 * subsurf_h) h) (\<lambda>(s, h).
      let h = blit result s (subsurf_w, subsurf_h) h in
      then_do (transform_scale E b3 (subsurf_w, rect_h - 2 * subsurf_h) h) (\<lambda>(s, h).
      let h = blit result s (rect_w - subsurf_w, subsurf_h) h;
          h = blit result c1 (0, rect_h - subsurf_h) h in
      then_do (transform_scale E c2 (rect_w - 2 * subsurf_w, subsurf_h) h) (\<lambda>(s, h).
      let h = blit result s (subsurf_w, rect_h - subsurf_h) h;
          h = blit result c3 (rect_w - subsurf_w, rect_h - subsurf_h) h in
      Inr (result, h)))))))))))))))))"


subsection \<open>\<open>functools.lru_cache\<close>\<close>

text \<open>
  \<open>@lru_cache(maxsize)\<close> wraps a function with a dictionary from its argument tuple to its
  result, kept in order of use, the most recently used entry first.  A hit returns the
  stored result and moves the entry to the front; a miss calls the function, stores the
  result in front and, when the cache is full, drops the entry at the back.  An
  exception of the function leaves the cache as it was.  The cache lives in the state
  \<open>'s\<close>; \<open>get\<close> and \<open>put\<close> read and write it.
\<close>

definition lru_cache ::
  "nat \<Rightarrow> ('s \<Rightarrow> ('k \<times> 'v) list) \<Rightarrow> (('k \<times> 'v) list \<Rightarrow> 's \<Rightarrow> 's) \<Rightarrow>
   ('k \<Rightarrow> 's \<Rightarrow> py_error + 'v \<times> 's) \<Rightarrow> 'k \<Rightarrow> 's \<Rightarrow> py_error + 'v \<times> 's" where
  "lru_cache maxsize get put f key s =
     (case map_of (get s) key of
        Some result \<Rightarrow> Inr (result, put ((key, result) # filter (\<lambda>e. fst e \<noteq> key) (get s)) s)
      | None \<Rightarrow>
          then_do (f key s) (\<lambda>(result, s').
          Inr (result, put (take maxsize ((key, result) # get s')) s')))"

text \<open>A caller making one call after the other, going on after a call that raised:
  the state it ends in, and the keys of the calls that returned.\<close>

fun calls :: "('k \<Rightarrow> 's \<Rightarrow> py_error + 'v \<times> 's) \<Rightarrow> 'k list \<Rightarrow> 's \<Rightarrow> 's" where
  "calls f [] s = s"
| "calls f (k # ks) s = (case f k s of Inl e \<Rightarrow> calls f ks s | Inr (v, s') \<Rightarrow> calls f ks s')"

fun returned :: "('k \<Rightarrow> 's \<Rightarrow> py_error + 'v \<times> 's) \<Rightarrow> 'k list \<Rightarrow> 's \<Rightarrow> 'k list" where
  "returned f [] s = []"
| "returned f (k # ks) s =
     (case f k s of Inl e \<Rightarrow> returned f ks s | Inr (v, s') \<Rightarrow> k # returned f ks s')"

subsection \<open>The state of the module\<close>

text \<open>
  The heap of surfaces and the four caches.  The key of a cache entry is the tuple of the
  arguments as the call passed them; where a parameter has a default, \<open>None\<close> stands for
  an argument that the call left out and \<open>Some v\<close> for the argument \<open>v\<close>.  The
  \<open>font_name\<close> of Python is \<open>None\<close>, a string or a \<open>Path\<close>.
\<close>

datatype font_name = NoName | Name string | PathName path

type_synonym rect = "int \<times> int \<times> int \<times> int"

record world =
  heap :: heap
  load_image_cache :: "((string \<times> int option \<times> bool option \<times> path option) \<times> ref) list"
  font_cache :: "((int \<times> font_name) \<times> pyfont) list"
  text_cache :: "((string \<times> pixel \<times> int option \<times> font_name option) \<times> ref) list"
  ninepatch_cache :: "((ref \<times> rect) \<times> ref) list"

definition on_heap :: "(heap \<Rightarrow> py_error + 'a \<times> heap) \<Rightarrow> world \<Rightarrow> py_error + 'a \<times> world" where
  "on_heap f w = then_do (f (heap w)) (\<lambda>(r, h). Inr (r, w\<lparr>heap := h\<rparr>))"

subsection \<open>Module constants\<close>

definition parent :: "path \<Rightarrow> path" where
  "parent p = butlast p"

definition SUBMISSION_DIR :: "env \<Rightarrow> path" where
  "SUBMISSION_DIR E = parent (FILE E)"

definition ASSETS :: "env \<Rightarrow> path" where
  "ASSETS E = parent (SUBMISSION_DIR E) @ [''assets'']"

definition SCREEN :: "env \<Rightarrow> rect" where
  "SCREEN E = (0, 0, fst (SIZE E), snd (SIZE E))"

subsection \<open>\<open>load_image\<close>\<close>

text \<open>\<open>pygame.image.load(path)\<close>: a new surface holding the decoded file;
  FileNotFoundError when there is no such file.\<close>

definition pygame_image_load :: "env \<Rightarrow> path \<Rightarrow> heap \<Rightarrow> py_error + ref \<times> heap" where
  "pygame_image_load E p h =
     (case png_files E p of
        None \<Rightarrow> Inl FileNotFoundError
      | Some img \<Rightarrow> Inr (alloc \<lparr>width = img_width img, height = img_height img,
                                 srcalpha = img_alpha img, mem = Own (img_pixels img)\<rparr> h))"

text \<open>\<open>surface.convert_alpha()\<close> and \<open>surface.convert()\<close>: a new surface with the same
  pixels, with and without per-pixel alpha.\<close>

definition convert_alpha :: "ref \<Rightarrow> heap \<Rightarrow> ref \<times> heap" where
  "convert_alpha r h =
     alloc \<lparr>width = width (h ! r), height = height (h ! r), srcalpha = True, mem = Own (read_px h r)\<rparr> h"

definition convert :: "ref \<Rightarrow> heap \<Rightarrow> ref \<times> heap" where
  "convert r h =
     alloc \<lparr>width = width (h ! r), height = height (h ! r), srcalpha = False, mem = Own (read_px h r)\<rparr> h"

text \<open>The body of \<open>load_image(name, scale=1, alpha=True, base=ASSETS)\<close>; the scale
  factor is an integer here.\<close>

definition load_image_body ::
  "env \<Rightarrow> string \<times> int option \<times> bool option \<times> path option \<Rightarrow> heap \<Rightarrow> py_error + ref \<times> heap" where
  "load_image_body E args h0 =
     (case args of (name, scale_arg, alpha_arg, base_arg) \<Rightarrow>
      let scale = (case scale_arg of None \<Rightarrow> 1 | Some v \<Rightarrow> v);
          alpha = (case alpha_arg of None \<Rightarrow> True | Some v \<Rightarrow> v);
          base = (case base_arg of None \<Rightarrow> ASSETS E | Some v \<Rightarrow> v) in
      then_do (pygame_image_load E (base @ [name @ ''.png'']) h0) (\<lambda>(image, h).
      then_do (if scale \<noteq> 1
               then transform_scale E image (width (h ! image) * scale, height (h ! image) * scale) h
               else Inr (image, h)) (\<lambda>(image, h).
      if alpha then Inr (convert_alpha image h) else Inr (convert image h))))"

text \<open>\<open>@lru_cache()\<close>: the default capacity is 128.\<close>

definition load_image ::
  "env \<Rightarrow> string \<times> int option \<times> bool option \<times> path option \<Rightarrow> world \<Rightarrow> py_error + ref \<times> world" where
  "load_image E =
     lru_cache 128 load_image_cache (\<lambda>c w. w\<lparr>load_image_cache := c\<rparr>)
       (\<lambda>args. on_heap (load_image_body E args))"

subsection \<open>\<open>font\<close>\<close>

text \<open>\<open>pygame.font.Font(path, size)\<close>: OverflowError for a size that is no C
  integer, then FileNotFoundError when there is no such file.\<close>

definition pygame_font_Font :: "env \<Rightarrow> path \<Rightarrow> int \<Rightarrow> py_error + pyfont" where
  "pygame_font_Font E p size_pt =
     (if \<not> fits_c_int size_pt then Inl OverflowError
      else case ttf_files E p of
             None \<Rightarrow> Inl FileNotFoundError
           | Some bytes \<Rightarrow> Inr \<lparr>ttf = bytes, pt_size = size_pt\<rparr>)"

text \<open>\<open>name or "regular"\<close>: \<open>None\<close> and the empty string are false.\<close>

definition or_regular :: "font_name \<Rightarrow> font_name" where
  "or_regular name =
     (case name of
        NoName \<Rightarrow> Name ''regular''
      | Name s \<Rightarrow> if s = [] then Name ''regular'' else Name s
      | PathName p \<Rightarrow> PathName p)"

text \<open>The path that \<open>font(size, name)\<close> computes.  In the \<open>else\<close> branch
  \<open>name + ".ttf"\<close> is a TypeError for a name that is not a string.\<close>

definition font_path :: "env \<Rightarrow> font_name \<Rightarrow> py_error + path" where
  "font_path E name =
     (case or_regular name of
        PathName p \<Rightarrow> Inr p
      | Name s \<Rightarrow> Inr (ROOT_DIR E @ [''wclib''] @ [''assets''] @ [s @ ''.ttf''])
      | NoName \<Rightarrow> Inl TypeError)"

text \<open>The body of \<open>font(size, name)\<close>.\<close>

definition font_body :: "env \<Rightarrow> int \<times> font_name \<Rightarrow> world \<Rightarrow> py_error + pyfont \<times> world" where
  "font_body E args w =
     (case args of (size_pt, name) \<Rightarrow>
      then_do (font_path E name) (\<lambda>p.
      then_do (pygame_font_Font E p size_pt) (\<lambda>f. Inr (f, w))))"

definition font :: "env \<Rightarrow> int \<times> font_name \<Rightarrow> world \<Rightarrow> py_error + pyfont \<times> world" where
  "font E = lru_cache 128 font_cache (\<lambda>c w. w\<lparr>font_cache := c\<rparr>) (font_body E)"

subsection \<open>\<open>text\<close>\<close>

text \<open>\<open>font.render(text, True, color)\<close>: a new surface with per-pixel alpha holding the
  rasterised text.\<close>

definition Font_render :: "env \<Rightarrow> pyfont \<Rightarrow> string \<Rightarrow> pixel \<Rightarrow> heap \<Rightarrow> ref \<times> heap" where
  "Font_render E f txt color h =
     (case rasterise E f txt color of
        ((w, ht), px) \<Rightarrow> alloc \<lparr>width = w, height = ht, srcalpha = True, mem = Own px\<rparr> h)"

text \<open>The body of \<open>text(txt, color, size=20, font_name=None)\<close>, for a string
  \<open>txt\<close>.\<close>

definition text_body ::
  "env \<Rightarrow> string \<times> pixel \<times> int option \<times> font_name option \<Rightarrow> world \<Rightarrow> py_error + ref \<times> world" where
  "text_body E args w0 =
     (case args of (txt, color, size_arg, font_name_arg) \<Rightarrow>
      let size_pt = (case size_arg of None \<Rightarrow> 20 | Some v \<Rightarrow> v);
          font_name = (case font_name_arg of None \<Rightarrow> NoName | Some v \<Rightarrow> v) in
      then_do (font E (size_pt, font_name) w0) (\<lambda>(f, w).
      case Font_render E f txt color (heap w) of (r, h) \<Rightarrow> Inr (r, w\<lparr>heap := h\<rparr>)))"

text \<open>\<open>@lru_cache(5000)\<close>.\<close>

definition text_fn ::
  "env \<Rightarrow> string \<times> pixel \<times> int option \<times> font_name option \<Rightarrow> world \<Rightarrow> py_error + ref \<times> world" where
  "text_fn E = lru_cache 5000 text_cache (\<lambda>c w. w\<lparr>text_cache := c\<rparr>) (text_body E)"

subsection \<open>\<open>blit_centered\<close>\<close>

text \<open>\<open>rect.center\<close>, and \<open>surface.get_rect(center=c)\<close>: the rectangle of the size of the
  surface whose centre is \<open>c\<close>.  Halves are rounded down.\<close>

definition center :: "rect \<Rightarrow> int \<times> int" where
  "center r = (case r of (x, y, w, ht) \<Rightarrow> (x + w div 2, y + ht div 2))"

definition get_rect_center :: "heap \<Rightarrow> ref \<Rightarrow> int \<times> int \<Rightarrow> rect" where
  "get_rect_center h r c =
     (case c of (cx, cy) \<Rightarrow>
        (cx - width (h ! r) div 2, cy - height (h ! r) div 2, width (h ! r), height (h ! r)))"

text \<open>\<open>blit\<close> with a rectangle as destination draws at its top-left corner.\<close>

definition blit_centered :: "ref \<Rightarrow> ref \<Rightarrow> rect \<Rightarrow> heap \<Rightarrow> heap" where
  "blit_centered screen surface rect h =
     (case get_rect_center h surface (center rect) of (x, y, w, ht) \<Rightarrow> blit screen surface (x, y) h)"

subsection \<open>\<open>ninepatch\<close>, memoised\<close>

text \<open>\<open>@lru_cache(100)\<close>; the key is the surface object and the rectangle tuple.\<close>

definition ninepatch :: "env \<Rightarrow> ref \<times> rect \<Rightarrow> world \<Rightarrow> py_error + ref \<times> world" where
  "ninepatch E =
     lru_cache 100 ninepatch_cache (\<lambda>c w. w\<lparr>ninepatch_cache := c\<rparr>)
       (\<lambda>args. on_heap (ninepatch_body E args))"

section \<open>What the properties are stated with\<close>

subsection \<open>The corners of a nine-patch\<close>

text \<open>
  \<open>corners_copied hs src hr res\<close>: each corner block of the surface \<open>res\<close> (in the heap
  \<open>hr\<close>) holds, pixel for pixel, the block of the same corner of the three by three grid
  that \<open>ninepatch\<close> lays over the surface \<open>src\<close> (in the heap \<open>hs\<close>).  A block is a third
  of the source wide and high, rounded down.
\<close>

definition corners_copied :: "heap \<Rightarrow> ref \<Rightarrow> heap \<Rightarrow> ref \<Rightarrow> bool" where
  "corners_copied hs src hr res =
     (let cw = width (hs ! src) div 3; ch = height (hs ! src) div 3;
          w = width (hr ! res); ht = height (hr ! res) in
      \<forall>i \<in> {0 ..< cw}. \<forall>j \<in> {0 ..< ch}.
        read_px hr res i j = read_px hs src i j \<and>
        read_px hr res (w - cw + i) j = read_px hs src (2 * cw + i) j \<and>
        read_px hr res i (ht - ch + j) = read_px hs src i (2 * ch + j) \<and>
        read_px hr res (w - cw + i) (ht - ch + j) = read_px hs src (2 * cw + i) (2 * ch + j))"

subsection \<open>Caches that hold what the functions returned\<close>

text \<open>
  The caches start empty and only the decorated functions write them.  What they then
  hold: for \<open>ninepatch\<close>, under a key a surface of the size that the rectangle of the
  key has as a \<open>pygame.Rect\<close>; for \<open>font\<close>, under a key the font that the body loads
  for it; for \<open>load_image\<close>, only keys whose file exists.
\<close>

definition ninepatch_cache_ok :: "world \<Rightarrow> bool" where
  "ninepatch_cache_ok st =
     (\<forall>((surface, (x, y, w, ht)), r) \<in> set (ninepatch_cache st).
        r < length (heap st) \<and> width (heap st ! r) = c_int w \<and> height (heap st ! r) = c_int ht)"

definition font_cache_ok :: "env \<Rightarrow> world \<Rightarrow> bool" where
  "font_cache_ok E st =
     (\<forall>((size_pt, name), f) \<in> set (font_cache st).
        then_do (font_path E name) (\<lambda>p. pygame_font_Font E p size_pt) = Inr f)"

definition load_image_cache_ok :: "env \<Rightarrow> world \<Rightarrow> bool" where
  "load_image_cache_ok E st =
     (\<forall>((name, scale_arg, alpha_arg, base_arg), r) \<in> set (load_image_cache st).
        png_files E ((case base_arg of None \<Rightarrow> ASSETS E | Some v \<Rightarrow> v) @ [name @ ''.png'']) \<noteq> None)"

subsection \<open>The surface that is being composed\<close>

text \<open>
  While \<open>ninepatch\<close> draws, the heap \<open>h\<close> differs from the heap \<open>g\<close> it started drawing
  on only in the pixels of the result \<open>n\<close> and in surfaces allocated since.
\<close>

definition canvas_inv :: "heap \<Rightarrow> ref \<Rightarrow> int \<Rightarrow> int \<Rightarrow> heap \<Rightarrow> bool" where
  "canvas_inv g n w ht h \<longleftrightarrow>
     length g \<le> length h \<and> n < length g \<and> (\<forall>r < length g. r \<noteq> n \<longrightarrow> h ! r = g ! r) \<and>
     width (h ! n) = w \<and> height (h ! n) = ht \<and> srcalpha (h ! n) \<and> (\<exists>f. mem (h ! n) = Own f) \<and>
     wf_heap h"

subsection \<open>The order of a least-recently-used cache\<close>

text \<open>The keys of a cache of capacity \<open>n\<close> after the key \<open>k\<close> was used: \<open>k\<close> in front.\<close>

definition used :: "nat \<Rightarrow> 'k \<Rightarrow> 'k list \<Rightarrow> 'k list" where
  "used n k keys = take n (k # removeAll k keys)"

subsection \<open>A small installation\<close>

text \<open>
  An installation with one image and the bundled font, nearest-neighbour resampling and
  a rasteriser that draws a filled box; a nine by nine button image whose nine cells have
  nine colours, a ten by ten one, a display of 100 by 100 and an opaque icon of 10 by 10.
  In the world the module starts in, the button and the icon are loaded and the caches
  are empty.
\<close>

definition ex_png :: image_file where
  "ex_png = \<lparr>img_width = 9, img_height = 9, img_alpha = True,
             img_pixels = (\<lambda>x y. (40 * (x div 3), 40 * (y div 3), 7, 255))\<rparr>"

definition ex_E :: env where
  "ex_E = \<lparr>ROOT_DIR = [''repo''], SIZE = (1024, 768),
           FILE = [''repo'', ''03-buttons'', ''bydariogamer'', ''utils.py''],
           png_files = (\<lambda>p. if p = [''repo'', ''03-buttons'', ''assets'', ''button.png'']
                              then Some ex_png else None),
           ttf_files = (\<lambda>p. if p = [''repo'', ''wclib'', ''assets'', ''regular.ttf'']
                              then Some ''glyphs'' else None),
           resample = (\<lambda>src (sw, sh) (dw, dh) x y. src (x * sw div dw) (y * sh div dh)),
           rasterise = (\<lambda>f txt color. ((int (length txt) * pt_size f, pt_size f), (\<lambda>x y. color)))\<rparr>"

definition ex_button :: surface where
  "ex_button = \<lparr>width = 9, height = 9, srcalpha = True,
                mem = Own (\<lambda>x y. (40 * (x div 3), 40 * (y div 3), 7, 255))\<rparr>"

definition ex_button10 :: surface where
  "ex_button10 = \<lparr>width = 10, height = 10, srcalpha = True,
                  mem = Own (\<lambda>x y. (40 * (x div 3), 40 * (y div 3), 7, 255))\<rparr>"

definition ex_display :: surface where
  "ex_display = \<lparr>width = 100, height = 100, srcalpha = False, mem = Own (\<lambda>x y. (0, 0, 0, 255))\<rparr>"

definition ex_icon :: surface where
  "ex_icon = \<lparr>width = 10, height = 10, srcalpha = False, mem = Own (\<lambda>x y. (x, y, 9, 255))\<rparr>"

definition ex_world :: world where
  "ex_world = \<lparr>heap = [ex_button, ex_icon], load_image_cache = [], font_cache = [], text_cache = [],
               ninepatch_cache = []\<rparr>"

text \<open>101 calls of \<open>ninepatch\<close> on the button, each with a rectangle of its own.\<close>

definition ex_keys :: "(ref \<times> rect) list" where
  "ex_keys = map (\<lambda>i. (0, (0, 0, 6 + int i, 6))) [0 ..< 101]"

section \<open>Properties\<close>

subsection \<open>Sequencing and blitting\<close>

lemma then_do_Inr [simp]: "then_do (Inr x) f = f x"
  by (simp add: then_do_def)

lemma then_do_Inl [simp]: "then_do (Inl e) f = Inl e"
  by (simp add: then_do_def)

lemma length_blit [simp]: "length (blit d s pos h) = length h"
  by (simp add: blit_def split: prod.splits)

lemma blit_nth_other: "r \<noteq> fst (owner h d) \<Longrightarrow> blit d s pos h ! r = h ! r"
  by (auto simp: blit_def split: prod.splits)

lemma upd_mem_shape:
  "width (h[p := (h ! p)\<lparr>mem := m\<rparr>] ! r) = width (h ! r)"
  "height (h[p := (h ! p)\<lparr>mem := m\<rparr>] ! r) = height (h ! r)"
  "srcalpha (h[p := (h ! p)\<lparr>mem := m\<rparr>] ! r) = srcalpha (h ! r)"
proof -
  have "h[p := (h ! p)\<lparr>mem := m\<rparr>] ! r = (if r = p \<and> p < length h then (h ! p)\<lparr>mem := m\<rparr> else h ! r)"
    by (cases "p < length h") (simp_all add: nth_list_update list_update_beyond)
  then show "width (h[p := (h ! p)\<lparr>mem := m\<rparr>] ! r) = width (h ! r)"
    "height (h[p := (h ! p)\<lparr>mem := m\<rparr>] ! r) = height (h ! r)"
    "srcalpha (h[p := (h ! p)\<lparr>mem := m\<rparr>] ! r) = srcalpha (h ! r)"
    by simp_all
qed

lemma width_blit [simp]: "width (blit d s pos h ! r) = width (h ! r)"
  by (simp add: blit_def upd_mem_shape split: prod.splits)

lemma height_blit [simp]: "height (blit d s pos h ! r) = height (h ! r)"
  by (simp add: blit_def upd_mem_shape split: prod.splits)

lemma srcalpha_blit [simp]: "srcalpha (blit d s pos h ! r) = srcalpha (h ! r)"
  by (simp add: blit_def upd_mem_shape split: prod.splits)

lemma blit_Own:
  assumes "mem (h ! d) = Own f"
  shows "blit d s (dx, dy) h = h[d := (h ! d)\<lparr>mem := Own (\<lambda>X Y.
            if 0 \<le> X \<and> X < width (h ! d) \<and> 0 \<le> Y \<and> Y < height (h ! d) \<and>
               dx \<le> X \<and> X < dx + width (h ! s) \<and> dy \<le> Y \<and> Y < dy + height (h ! s)
            then blit_px (srcalpha (h ! s)) (read_px h s (X - dx) (Y - dy))
                   (with_alpha (srcalpha (h ! d)) (f X Y))
            else f X Y)\<rparr>]"
proof -
  have "owner h d = (d, 0, 0)" "raw h d = f"
    using assms by (simp_all add: owner_def raw_def)
  then show ?thesis by (simp add: blit_def cong: if_cong)
qed

subsection \<open>Pixels and well-formed heaps\<close>

lemma with_alpha_True [simp]: "with_alpha True px = px"
  by (cases px) (simp add: with_alpha_def)

lemma with_alpha_idem [simp]: "with_alpha a (with_alpha a px) = with_alpha a px"
  by (cases px) (simp add: with_alpha_def)

lemma blend_transparent [simp]: "blend s (0, 0, 0, 0) = s"
  by (cases s) (simp add: blend_def)

lemma blit_px_transparent [simp]: "blit_px a s (0, 0, 0, 0) = s"
  by (simp add: blit_px_def)

lemma owner_Own: "mem (h ! r) = Own f \<Longrightarrow> owner h r = (r, 0, 0)"
  by (simp add: owner_def)

lemma owner_View: "mem (h ! r) = View p ox oy \<Longrightarrow> owner h r = (p, ox, oy)"
  by (simp add: owner_def)

lemma read_px_blit_dest:
  assumes "mem (h ! d) = Own f" "d < length h"
  shows "read_px (blit d s (dx, dy) h) d X Y =
     (if 0 \<le> X \<and> X < width (h ! d) \<and> 0 \<le> Y \<and> Y < height (h ! d) \<and>
         dx \<le> X \<and> X < dx + width (h ! s) \<and> dy \<le> Y \<and> Y < dy + height (h ! s)
      then with_alpha (srcalpha (h ! d))
             (blit_px (srcalpha (h ! s)) (read_px h s (X - dx) (Y - dy)) (read_px h d X Y))
      else read_px h d X Y)"
  using assms by (simp add: blit_Own [OF assms(1)] read_px_def owner_def raw_def)


lemma read_px_append:
  assumes "r < length h" "fst (owner h r) < length h"
  shows "read_px (h @ [s]) r = read_px h r"
  using assms by (intro ext) (auto simp: read_px_def owner_def raw_def nth_append split: memory.splits)

lemma wf_surface_append: "wf_surface h s \<Longrightarrow> wf_surface (h @ [t]) s"
  by (auto simp: wf_surface_def nth_append split: memory.splits)

lemma wf_heap_append: "wf_heap h \<Longrightarrow> wf_surface (h @ [t]) t \<Longrightarrow> wf_heap (h @ [t])"
  by (auto simp: wf_heap_def list_all_iff wf_surface_append)

lemma wf_heap_nth: "wf_heap h \<Longrightarrow> r < length h \<Longrightarrow> wf_surface h (h ! r)"
  by (simp add: wf_heap_def list_all_length)

lemma wf_owner:
  assumes "wf_heap h" "r < length h" "owner h r = (p, ox, oy)"
  shows "p < length h \<and> (\<exists>f. mem (h ! p) = Own f) \<and> 0 \<le> ox \<and> 0 \<le> oy \<and>
         ox + width (h ! r) \<le> width (h ! p) \<and> oy + height (h ! r) \<le> height (h ! p)"
  using wf_heap_nth [OF assms(1,2)] assms(2,3)
  by (auto simp: wf_surface_def owner_def split: memory.splits)

lemma wf_surface_upd:
  assumes "mem (h ! d) = Own f" "wf_surface h s"
  shows "wf_surface (h[d := (h ! d)\<lparr>mem := Own g\<rparr>]) s"
proof (cases "mem s")
  case (Own x)
  then show ?thesis using assms(2) by (simp add: wf_surface_def)
next
  case (View p ox oy)
  then have p: "p < length h" "\<exists>f. mem (h ! p) = Own f"
    using assms(2) by (auto simp: wf_surface_def split: memory.splits)
  show ?thesis
  proof (cases "p = d")
    case True
    then show ?thesis using View assms p by (simp add: wf_surface_def)
  next
    case False
    then show ?thesis using View assms(2) p by (simp add: wf_surface_def)
  qed
qed

lemma wf_heap_blit:
  assumes "wf_heap h" "mem (h ! d) = Own f"
  shows "wf_heap (blit d s pos h)"
proof -
  obtain dx dy where pos: "pos = (dx, dy)" by (cases pos)
  have "\<exists>g. blit d s pos h = h[d := (h ! d)\<lparr>mem := Own g\<rparr>]"
    unfolding pos by (rule exI, rule blit_Own [OF assms(2)])
  then obtain g where eq: "blit d s pos h = h[d := (h ! d)\<lparr>mem := Own g\<rparr>]" ..
  have "wf_surface (h[d := (h ! d)\<lparr>mem := Own g\<rparr>]) (h[d := (h ! d)\<lparr>mem := Own g\<rparr>] ! i)"
    if i: "i < length h" for i
  proof (cases "i = d")
    case True
    have "wf_surface h (h ! d)" using wf_heap_nth [OF assms(1)] i True by simp
    then show ?thesis using True i by (simp add: wf_surface_def)
  next
    case False
    have "wf_surface h (h ! i)" using wf_heap_nth [OF assms(1) i] .
    then have "wf_surface (h[d := (h ! d)\<lparr>mem := Own g\<rparr>]) (h ! i)"
      by (rule wf_surface_upd [OF assms(2)])
    then show ?thesis using False by simp
  qed
  then show ?thesis unfolding eq by (simp add: wf_heap_def list_all_length)
qed

subsection \<open>Drawing on the result\<close>

lemma Surface_SRCALPHA_ok:
  "0 \<le> w \<Longrightarrow> 0 \<le> ht \<Longrightarrow>
   Surface_SRCALPHA (w, ht) h =
     Inr (length h, h @ [\<lparr>width = w, height = ht, srcalpha = True, mem = Own (\<lambda>x y. (0, 0, 0, 0))\<rparr>])"
  by (simp add: Surface_SRCALPHA_def alloc_def)

lemma subsurface_ok:
  assumes "0 \<le> x" "0 \<le> y" "0 \<le> w" "0 \<le> ht" "x + w \<le> width (h ! r)" "y + ht \<le> height (h ! r)"
    and "owner h r = (p, ox, oy)"
  shows "subsurface r (x, y, w, ht) h =
     Inr (length h, h @ [\<lparr>width = w, height = ht, srcalpha = srcalpha (h ! r),
                          mem = View p (ox + x) (oy + y)\<rparr>])"
  using assms by (simp add: subsurface_def alloc_def)

lemma transform_scale_ok:
  assumes "0 \<le> w" "0 \<le> ht"
  shows "\<exists>S. transform_scale E r (w, ht) h = Inr (length h, h @ [S]) \<and> width S = w \<and> height S = ht \<and>
             srcalpha S = srcalpha (h ! r) \<and> (\<exists>f. mem S = Own f)"
  using assms by (simp add: transform_scale_def alloc_def)

lemma owner_append: "r < length h \<Longrightarrow> owner (h @ ys) r = owner h r"
  by (simp add: owner_def nth_append)

lemma canvas_inv_blit:
  assumes "canvas_inv g n w ht h"
  shows "canvas_inv g n w ht (blit n s pos h)"
proof -
  from assms obtain f where f: "mem (h ! n) = Own f" by (auto simp: canvas_inv_def)
  have o: "owner h n = (n, 0, 0)" using f by (rule owner_Own)
  obtain dx dy where pos: "pos = (dx, dy)" by (cases pos)
  have n: "n < length h" using assms by (simp add: canvas_inv_def)
  have "\<exists>f'. mem (blit n s pos h ! n) = Own f'"
    unfolding pos blit_Own [OF f] using n by simp
  moreover have "\<forall>r < length g. r \<noteq> n \<longrightarrow> blit n s pos h ! r = g ! r"
    using assms o by (simp add: canvas_inv_def blit_nth_other)
  moreover have "wf_heap (blit n s pos h)"
    using assms f by (simp add: canvas_inv_def wf_heap_blit)
  ultimately show ?thesis using assms by (simp add: canvas_inv_def)
qed

lemma canvas_inv_alloc:
  assumes "canvas_inv g n w ht h" "0 \<le> width S" "0 \<le> height S" "mem S = Own f"
  shows "canvas_inv g n w ht (h @ [S])"
proof -
  have "wf_surface (h @ [S]) S" using assms(2-4) by (simp add: wf_surface_def)
  then have "wf_heap (h @ [S])" using assms(1) by (simp add: canvas_inv_def wf_heap_append)
  then show ?thesis using assms(1) by (auto simp: canvas_inv_def nth_append)
qed

lemma px_blit:
  assumes "canvas_inv g n w ht h"
  shows "read_px (blit n s (dx, dy) h) n X Y =
     (if 0 \<le> X \<and> X < w \<and> 0 \<le> Y \<and> Y < ht \<and>
         dx \<le> X \<and> X < dx + width (h ! s) \<and> dy \<le> Y \<and> Y < dy + height (h ! s)
      then blit_px (srcalpha (h ! s)) (read_px h s (X - dx) (Y - dy)) (read_px h n X Y)
      else read_px h n X Y)"
proof -
  from assms obtain f where f: "mem (h ! n) = Own f" by (auto simp: canvas_inv_def)
  have n: "n < length h" "width (h ! n) = w" "height (h ! n) = ht" "srcalpha (h ! n)"
    using assms by (simp_all add: canvas_inv_def)
  show ?thesis using n by (simp add: read_px_blit_dest [OF f n(1)])
qed

lemma px_alloc:
  assumes "canvas_inv g n w ht h"
  shows "read_px (h @ [S]) n = read_px h n"
proof -
  from assms obtain f where f: "mem (h ! n) = Own f" by (auto simp: canvas_inv_def)
  have n: "n < length h" using assms by (simp add: canvas_inv_def)
  show ?thesis using n by (simp add: read_px_append owner_Own [OF f])
qed

lemma px_view:
  assumes "canvas_inv g n w ht h" "r < length g" "r \<noteq> n" "owner g r = (p, ox, oy)"
    "p < length g" "p \<noteq> n"
  shows "read_px h r = read_px g r"
proof -
  have "h ! r = g ! r" "h ! p = g ! p" using assms by (simp_all add: canvas_inv_def)
  moreover then have "owner h r = (p, ox, oy)" using assms(4) by (simp add: owner_def)
  ultimately show ?thesis using assms(4) by (intro ext) (simp add: read_px_def raw_def)
qed

lemma px_blit_outside:
  assumes "canvas_inv g n w ht h"
    and "\<not> (dx \<le> X \<and> X < dx + width (h ! s) \<and> dy \<le> Y \<and> Y < dy + height (h ! s))"
  shows "read_px (blit n s (dx, dy) h) n X Y = read_px h n X Y"
  using assms(2) by (auto simp: px_blit [OF assms(1)])

lemma px_blit_inside:
  assumes "canvas_inv g n w ht h" "0 \<le> X" "X < w" "0 \<le> Y" "Y < ht"
    and "dx \<le> X" "X < dx + width (h ! s)" "dy \<le> Y" "Y < dy + height (h ! s)"
  shows "read_px (blit n s (dx, dy) h) n X Y =
           blit_px (srcalpha (h ! s)) (read_px h s (X - dx) (Y - dy)) (read_px h n X Y)"
  using assms(2-) by (simp add: px_blit [OF assms(1)])

subsection \<open>The body of \<open>ninepatch\<close>\<close>

lemma canvas_nth: "canvas_inv g n w ht h \<Longrightarrow> r < length g \<Longrightarrow> r \<noteq> n \<Longrightarrow> h ! r = g ! r"
  by (simp add: canvas_inv_def)

lemma canvas_length: "canvas_inv g n w ht h \<Longrightarrow> length g \<le> length h"
  by (simp add: canvas_inv_def)

lemma ninepatch_body_spec:
  assumes wf: "wf_heap h0" and s: "surface < length h0"
    and rw: "w = c_int rw" and rh: "ht = c_int rh"
    and W: "2 * (width (h0 ! surface) div 3) \<le> w"
    and H: "2 * (height (h0 ! surface) div 3) \<le> ht"
  shows "\<exists>h'. ninepatch_body E (surface, (x, y, rw, rh)) h0 = Inr (length h0, h') \<and>
           length h' = length h0 + 15 \<and> (\<forall>r < length h0. h' ! r = h0 ! r) \<and> wf_heap h' \<and>
           width (h' ! length h0) = w \<and> height (h' ! length h0) = ht \<and>
           srcalpha (h' ! length h0) \<and> (\<exists>f. mem (h' ! length h0) = Own f) \<and>
           (\<forall>c < 3. \<forall>r < 3.
              width (h' ! (length h0 + 1 + 3 * r + c)) = width (h0 ! surface) div 3 \<and>
              height (h' ! (length h0 + 1 + 3 * r + c)) = height (h0 ! surface) div 3 \<and>
              (\<forall>i j. read_px h' (length h0 + 1 + 3 * r + c) i j =
                 read_px h0 surface (int c * (width (h0 ! surface) div 3) + i)
                   (int r * (height (h0 ! surface) div 3) + j))) \<and>
           (\<forall>i j. 0 \<le> i \<and> i < width (h0 ! surface) div 3 \<and> 0 \<le> j \<and> j < height (h0 ! surface) div 3 \<longrightarrow>
              read_px h' (length h0) i j = read_px h0 surface i j \<and>
              read_px h' (length h0) (w - width (h0 ! surface) div 3 + i) j =
                read_px h0 surface (2 * (width (h0 ! surface) div 3) + i) j \<and>
              read_px h' (length h0) i (ht - height (h0 ! surface) div 3 + j) =
                read_px h0 surface i (2 * (height (h0 ! surface) div 3) + j) \<and>
              read_px h' (length h0) (w - width (h0 ! surface) div 3 + i) (ht - height (h0 ! surface) div 3 + j) =
                read_px h0 surface (2 * (width (h0 ! surface) div 3) + i) (2 * (height (h0 ! surface) div 3) + j))"
proof -
  define n where "n = length h0"
  define sw where "sw = width (h0 ! surface) div 3"
  define sh where "sh = height (h0 ! surface) div 3"
  obtain p ox oy where o: "owner h0 surface = (p, ox, oy)" by (cases "owner h0 surface")
  note wo = wf_owner [OF wf s o]
  have nonneg: "0 \<le> width (h0 ! surface)" "0 \<le> height (h0 ! surface)"
    using wf_heap_nth [OF wf s] by (simp_all add: wf_surface_def)
  have sw: "0 \<le> sw" "3 * sw \<le> width (h0 ! surface)" and sh: "0 \<le> sh" "3 * sh \<le> height (h0 ! surface)"
    using nonneg by (simp_all add: sw_def sh_def)
  have w: "2 * sw \<le> w" and ht: "2 * sh \<le> ht" using W H by (simp_all add: sw_def sh_def)
  define R where "R = \<lparr>width = w, height = ht, srcalpha = True, mem = Own (\<lambda>x y. (0, 0, 0, 0))\<rparr>"
  define V where "V = (\<lambda>vx vy. \<lparr>width = sw, height = sh, srcalpha = srcalpha (h0 ! surface),
                                mem = View p (ox + vx) (oy + vy)\<rparr>)"
  define h1 where "h1 = h0 @ [R]"
  define h2 where "h2 = h0 @ [R, V 0 0]"
  define h3 where "h3 = h0 @ [R, V 0 0, V sw 0]"
  define h4 where "h4 = h0 @ [R, V 0 0, V sw 0, V (2 * sw) 0]"
  define h5 where "h5 = h0 @ [R, V 0 0, V sw 0, V (2 * sw) 0, V 0 sh]"
  define h6 where "h6 = h0 @ [R, V 0 0, V sw 0, V (2 * sw) 0, V 0 sh, V sw sh]"
  define h7 where "h7 = h0 @ [R, V 0 0, V sw 0, V (2 * sw) 0, V 0 sh, V sw sh, V (2 * sw) sh]"
  define h8 where "h8 = h0 @ [R, V 0 0, V sw 0, V (2 * sw) 0, V 0 sh, V sw sh, V (2 * sw) sh,
                              V 0 (2 * sh)]"
  define h9 where "h9 = h0 @ [R, V 0 0, V sw 0, V (2 * sw) 0, V 0 sh, V sw sh, V (2 * sw) sh,
                              V 0 (2 * sh), V sw (2 * sh)]"
  define h10 where "h10 = h0 @ [R, V 0 0, V sw 0, V (2 * sw) 0, V 0 sh, V sw sh, V (2 * sw) sh,
                                V 0 (2 * sh), V sw (2 * sh), V (2 * sw) (2 * sh)]"
  note hdefs = h1_def h2_def h3_def h4_def h5_def h6_def h7_def h8_def h9_def h10_def
  have sub: "subsurface surface (vx, vy, sw, sh) (h0 @ ys) = Inr (length (h0 @ ys), (h0 @ ys) @ [V vx vy])"
    if "vx \<in> {0, sw, 2 * sw}" "vy \<in> {0, sh, 2 * sh}" for vx vy ys
  proof -
    have "(h0 @ ys) ! surface = h0 ! surface" "owner (h0 @ ys) surface = (p, ox, oy)"
      using s o by (simp_all add: nth_append owner_append)
    moreover have "0 \<le> vx" "0 \<le> vy" "vx + sw \<le> width (h0 ! surface)" "vy + sh \<le> height (h0 ! surface)"
      using that sw sh by auto
    ultimately show ?thesis using sw(1) sh(1)
      by (simp add: subsurface_ok [where p = p and ox = ox and oy = oy] V_def)
  qed
  have E0: "Surface_SRCALPHA (w, ht) h0 = Inr (n, h1)"
    using w ht sw(1) sh(1) by (simp add: Surface_SRCALPHA_ok n_def h1_def R_def)
  have Ew: "h1 ! surface = h0 ! surface" using s by (simp add: h1_def nth_append)
  have E1: "subsurface surface (0, 0, sw, sh) h1 = Inr (n + 1, h2)"
    unfolding h1_def h2_def n_def using sub [of 0 0 "[R]"] by simp
  have E2: "subsurface surface (sw, 0, sw, sh) h2 = Inr (n + 2, h3)"
    unfolding h2_def h3_def n_def using sub [of sw 0 "[R, V 0 0]"] by simp
  have E3: "subsurface surface (2 * sw, 0, sw, sh) h3 = Inr (n + 3, h4)"
    unfolding h3_def h4_def n_def using sub [of "2 * sw" 0 "[R, V 0 0, V sw 0]"] by simp
  have E4: "subsurface surface (0, sh, sw, sh) h4 = Inr (n + 4, h5)"
    unfolding h4_def h5_def n_def using sub [of 0 sh "[R, V 0 0, V sw 0, V (2 * sw) 0]"] by simp
  have E5: "subsurface surface (sw, sh, sw, sh) h5 = Inr (n + 5, h6)"
    unfolding h5_def h6_def n_def
    using sub [of sw sh "[R, V 0 0, V sw 0, V (2 * sw) 0, V 0 sh]"] by simp
  have E6: "subsurface surface (2 * sw, sh, sw, sh) h6 = Inr (n + 6, h7)"
    unfolding h6_def h7_def n_def
    using sub [of "2 * sw" sh "[R, V 0 0, V sw 0, V (2 * sw) 0, V 0 sh, V sw sh]"] by simp
  have E7: "subsurface surface (0, 2 * sh, sw, sh) h7 = Inr (n + 7, h8)"
    unfolding h7_def h8_def n_def
    using sub [of 0 "2 * sh" "[R, V 0 0, V sw 0, V (2 * sw) 0, V 0 sh, V sw sh, V (2 * sw) sh]"] by simp
  have E8: "subsurface surface (sw, 2 * sh, sw, sh) h8 = Inr (n + 8, h9)"
    unfolding h8_def h9_def n_def
    using sub [of sw "2 * sh" "[R, V 0 0, V sw 0, V (2 * sw) 0, V 0 sh, V sw sh, V (2 * sw) sh,
                              V 0 (2 * sh)]"] by simp
  have E9: "subsurface surface (2 * sw, 2 * sh, sw, sh) h9 = Inr (n + 9, h10)"
    unfolding h9_def h10_def n_def
    using sub [of "2 * sw" "2 * sh" "[R, V 0 0, V sw 0, V (2 * sw) 0, V 0 sh, V sw sh, V (2 * sw) sh,
                              V 0 (2 * sh), V sw (2 * sh)]"] by simp
  have len: "length h10 = n + 10" by (simp add: h10_def n_def)
  have h10n: "h10 ! n = R" by (simp add: h10_def n_def nth_append)
  have old: "h10 ! r = h0 ! r" if "r < n" for r using that by (simp add: h10_def n_def nth_append)
  have view: "h10 ! (n + 1) = V 0 0" "h10 ! (n + 2) = V sw 0" "h10 ! (n + 3) = V (2 * sw) 0"
    "h10 ! (n + 4) = V 0 sh" "h10 ! (n + 5) = V sw sh" "h10 ! (n + 6) = V (2 * sw) sh"
    "h10 ! (n + 7) = V 0 (2 * sh)" "h10 ! (n + 8) = V sw (2 * sh)" "h10 ! (n + 9) = V (2 * sw) (2 * sh)"
    by (simp_all add: h10_def n_def nth_append)
  have view1: "h10 ! Suc n = V 0 0" using view(1) by simp
  have pn: "p < n" using wo by (simp add: n_def)
  have wfV: "wf_heap (h @ [V vx vy])"
    if "wf_heap h" "n \<le> length h" "h ! p = h0 ! p" "vx \<in> {0, sw, 2 * sw}" "vy \<in> {0, sh, 2 * sh}"
    for vx vy h
  proof (rule wf_heap_append [OF that(1)])
    have "(h @ [V vx vy]) ! p = h0 ! p" using pn that(2,3) by (simp add: nth_append)
    moreover have "0 \<le> vx" "0 \<le> vy" "vx + sw \<le> width (h0 ! surface)" "vy + sh \<le> height (h0 ! surface)"
      using that sw sh by auto
    ultimately show "wf_surface (h @ [V vx vy]) (V vx vy)"
      using wo sw(1) sh(1) pn that(2) by (auto simp: wf_surface_def V_def)
  qed
  have hp: "h1 ! p = h0 ! p" "h2 ! p = h0 ! p" "h3 ! p = h0 ! p" "h4 ! p = h0 ! p" "h5 ! p = h0 ! p"
    "h6 ! p = h0 ! p" "h7 ! p = h0 ! p" "h8 ! p = h0 ! p" "h9 ! p = h0 ! p"
    using pn by (simp_all add: hdefs n_def nth_append)
  have hl: "n \<le> length h1" "n \<le> length h2" "n \<le> length h3" "n \<le> length h4" "n \<le> length h5"
    "n \<le> length h6" "n \<le> length h7" "n \<le> length h8" "n \<le> length h9"
    by (simp_all add: hdefs n_def)
  have wf1: "wf_heap h1"
    unfolding h1_def using w ht sw(1) sh(1)
    by (intro wf_heap_append [OF wf]) (simp add: wf_surface_def R_def)
  have wf2: "wf_heap h2" using wfV [OF wf1 hl(1) hp(1), of 0 0] by (simp add: hdefs)
  have wf3: "wf_heap h3" using wfV [OF wf2 hl(2) hp(2), of sw 0] by (simp add: hdefs)
  have wf4: "wf_heap h4" using wfV [OF wf3 hl(3) hp(3), of "2 * sw" 0] by (simp add: hdefs)
  have wf5: "wf_heap h5" using wfV [OF wf4 hl(4) hp(4), of 0 sh] by (simp add: hdefs)
  have wf6: "wf_heap h6" using wfV [OF wf5 hl(5) hp(5), of sw sh] by (simp add: hdefs)
  have wf7: "wf_heap h7" using wfV [OF wf6 hl(6) hp(6), of "2 * sw" sh] by (simp add: hdefs)
  have wf8: "wf_heap h8" using wfV [OF wf7 hl(7) hp(7), of 0 "2 * sh"] by (simp add: hdefs)
  have wf9: "wf_heap h9" using wfV [OF wf8 hl(8) hp(8), of sw "2 * sh"] by (simp add: hdefs)
  have wf10: "wf_heap h10" using wfV [OF wf9 hl(9) hp(9), of "2 * sw" "2 * sh"] by (simp add: hdefs)
  have I0: "canvas_inv h10 n w ht h10"
    using wf10 h10n len by (simp add: canvas_inv_def R_def)
  define al where "al = srcalpha (h0 ! surface)"
  have vshape: "width (V vx vy) = sw" "height (V vx vy) = sh" "srcalpha (V vx vy) = al" for vx vy
    by (simp_all add: V_def al_def)
  have vpx: "read_px k r X Y = read_px h0 surface (X + vx) (Y + vy)"
    if "canvas_inv h10 n w ht k" "h10 ! r = V vx vy" "r < n + 10" "r \<noteq> n" for k r vx vy X Y
  proof -
    have ov: "owner h10 r = (p, ox + vx, oy + vy)" using that(2) by (simp add: owner_def V_def)
    have "read_px k r = read_px h10 r"
      using px_view [OF that(1) _ that(4) ov] that(3) pn len by simp
    moreover have "raw h10 p = raw h0 p" using old [OF pn] by (simp add: raw_def)
    ultimately show ?thesis using ov o that(2)
      by (simp add: read_px_def V_def add.assoc add.left_commute add.commute)
  qed
  have P0: "read_px h10 n X Y = (0, 0, 0, 0)" for X Y
    using h10n by (simp add: read_px_def owner_def raw_def R_def with_alpha_def)
  define k1 where "k1 = blit n (n + 1) (0, 0) h10"
  have I1: "canvas_inv h10 n w ht k1" unfolding k1_def by (rule canvas_inv_blit [OF I0])
  have L1: "length k1 = n + 10" by (simp add: k1_def len)
  obtain S1 where T1: "transform_scale E (n + 2) (w - 2 * sw, sh) k1 = Inr (n + 10, k1 @ [S1])"
    and S1: "width S1 = w - 2 * sw" "height S1 = sh" "\<exists>f. mem S1 = Own f"
    using transform_scale_ok [of "w - 2 * sw" sh E "n + 2" k1] w sh(1) L1 by auto
  define k2 where "k2 = k1 @ [S1]"
  have I2: "canvas_inv h10 n w ht k2"
    unfolding k2_def using S1 w sh(1) by (auto intro: canvas_inv_alloc [OF I1])
  define k3 where "k3 = blit n (n + 10) (sw, 0) k2"
  have I3: "canvas_inv h10 n w ht k3" unfolding k3_def by (rule canvas_inv_blit [OF I2])
  define k4 where "k4 = blit n (n + 3) (w - sw, 0) k3"
  have I4: "canvas_inv h10 n w ht k4" unfolding k4_def by (rule canvas_inv_blit [OF I3])
  have L4: "length k4 = n + 11" by (simp add: k4_def k3_def k2_def L1)
  obtain S2 where T2: "transform_scale E (n + 4) (sw, ht - 2 * sh) k4 = Inr (n + 11, k4 @ [S2])"
    and S2: "width S2 = sw" "height S2 = ht - 2 * sh" "\<exists>f. mem S2 = Own f"
    using transform_scale_ok [of sw "ht - 2 * sh" E "n + 4" k4] ht sw(1) L4 by auto
  define k5 where "k5 = k4 @ [S2]"
  have I5: "canvas_inv h10 n w ht k5"
    unfolding k5_def using S2 ht sw(1) by (auto intro: canvas_inv_alloc [OF I4])
  define k6 where "k6 = blit n (n + 11) (0, sh) k5"
  have I6: "canvas_inv h10 n w ht k6" unfolding k6_def by (rule canvas_inv_blit [OF I5])
  have L6: "length k6 = n + 12" by (simp add: k6_def k5_def L4)
  obtain S3 where T3: "transform_scale E (n + 5) (w - 2 * sw, ht - 2 * sh) k6 = Inr (n + 12, k6 @ [S3])"
    and S3: "width S3 = w - 2 * sw" "height S3 = ht - 2 * sh" "\<exists>f. mem S3 = Own f"
    using transform_scale_ok [of "w - 2 * sw" "ht - 2 * sh" E "n + 5" k6] w ht L6 by auto
  define k7 where "k7 = k6 @ [S3]"
  have I7: "canvas_inv h10 n w ht k7"
    unfolding k7_def using S3 w ht by (auto intro: canvas_inv_alloc [OF I6])
  define k8 where "k8 = blit n (n + 12) (sw, sh) k7"
  have I8: "canvas_inv h10 n w ht k8" unfolding k8_def by (rule canvas_inv_blit [OF I7])
  have L8: "length k8 = n + 13" by (simp add: k8_def k7_def L6)
  obtain S4 where T4: "transform_scale E (n + 6) (sw, ht - 2 * sh) k8 = Inr (n + 13, k8 @ [S4])"
    and S4: "width S4 = sw" "height S4 = ht - 2 * sh" "\<exists>f. mem S4 = Own f"
    using transform_scale_ok [of sw "ht - 2 * sh" E "n + 6" k8] ht sw(1) L8 by auto
  define k9 where "k9 = k8 @ [S4]"
  have I9: "canvas_inv h10 n w ht k9"
    unfolding k9_def using S4 ht sw(1) by (auto intro: canvas_inv_alloc [OF I8])
  define k10 where "k10 = blit n (n + 13) (w - sw, sh) k9"
  have I10: "canvas_inv h10 n w ht k10" unfolding k10_def by (rule canvas_inv_blit [OF I9])
  define k11 where "k11 = blit n (n + 7) (0, ht - sh) k10"
  have I11: "canvas_inv h10 n w ht k11" unfolding k11_def by (rule canvas_inv_blit [OF I10])
  have L11: "length k11 = n + 14" by (simp add: k11_def k10_def k9_def L8)
  obtain S5 where T5: "transform_scale E (n + 8) (w - 2 * sw, sh) k11 = Inr (n + 14, k11 @ [S5])"
    and S5: "width S5 = w - 2 * sw" "height S5 = sh" "\<exists>f. mem S5 = Own f"
    using transform_scale_ok [of "w - 2 * sw" sh E "n + 8" k11] w sh(1) L11 by auto
  define k12 where "k12 = k11 @ [S5]"
  have I12: "canvas_inv h10 n w ht k12"
    unfolding k12_def using S5 w sh(1) by (auto intro: canvas_inv_alloc [OF I11])
  define k13 where "k13 = blit n (n + 14) (sw, ht - sh) k12"
  have I13: "canvas_inv h10 n w ht k13" unfolding k13_def by (rule canvas_inv_blit [OF I12])
  define k14 where "k14 = blit n (n + 9) (w - sw, ht - sh) k13"
  have I14: "canvas_inv h10 n w ht k14" unfolding k14_def by (rule canvas_inv_blit [OF I13])
  have L14: "length k14 = n + 15" by (simp add: k14_def k13_def k12_def L11)
  have run: "ninepatch_body E (surface, (x, y, rw, rh)) h0 = Inr (n, k14)"
    by (simp only: ninepatch_body_def pygame_Rect_def prod.case rw [symmetric] rh [symmetric]
         then_do_Inr Let_def E0 Ew
         sw_def [symmetric] sh_def [symmetric] E1 E2 E3 E4 E5 E6 E7 E8 E9
         k1_def [symmetric] T1 k2_def [symmetric] k3_def [symmetric] k4_def [symmetric]
         T2 k5_def [symmetric] k6_def [symmetric] T3 k7_def [symmetric] k8_def [symmetric]
         T4 k9_def [symmetric] k10_def [symmetric] k11_def [symmetric] T5 k12_def [symmetric]
         k13_def [symmetric] k14_def [symmetric])
  have sz: "k2 ! (n + 10) = S1" "k5 ! (n + 11) = S2" "k7 ! (n + 12) = S3" "k9 ! (n + 13) = S4"
    "k12 ! (n + 14) = S5"
    using L1 L4 L6 L8 L11 by (simp_all add: k2_def k5_def k7_def k9_def k12_def nth_append)
  have U1: "read_px k1 n X Y = read_px h10 n X Y"
    if "\<not> (0 \<le> X \<and> X < sw \<and> 0 \<le> Y \<and> Y < sh)" for X Y
    unfolding k1_def using that by (intro px_blit_outside [OF I0]) (simp add: view1 vshape)
  have U3: "read_px k3 n X Y = read_px k1 n X Y"
    if "\<not> (sw \<le> X \<and> X < w - sw \<and> 0 \<le> Y \<and> Y < sh)" for X Y
  proof -
    have "read_px k3 n X Y = read_px k2 n X Y"
      unfolding k3_def using that by (intro px_blit_outside [OF I2]) (simp add: sz S1)
    then show ?thesis by (simp add: k2_def px_alloc [OF I1])
  qed
  have U4: "read_px k4 n X Y = read_px k3 n X Y"
    if "\<not> (w - sw \<le> X \<and> X < w \<and> 0 \<le> Y \<and> Y < sh)" for X Y
    unfolding k4_def using that
    by (intro px_blit_outside [OF I3]) (simp add: canvas_nth [OF I3] len view vshape)
  have U6: "read_px k6 n X Y = read_px k4 n X Y"
    if "\<not> (0 \<le> X \<and> X < sw \<and> sh \<le> Y \<and> Y < ht - sh)" for X Y
  proof -
    have "read_px k6 n X Y = read_px k5 n X Y"
      unfolding k6_def using that by (intro px_blit_outside [OF I5]) (simp add: sz S2)
    then show ?thesis by (simp add: k5_def px_alloc [OF I4])
  qed
  have U8: "read_px k8 n X Y = read_px k6 n X Y"
    if "\<not> (sw \<le> X \<and> X < w - sw \<and> sh \<le> Y \<and> Y < ht - sh)" for X Y
  proof -
    have "read_px k8 n X Y = read_px k7 n X Y"
      unfolding k8_def using that by (intro px_blit_outside [OF I7]) (simp add: sz S3)
    then show ?thesis by (simp add: k7_def px_alloc [OF I6])
  qed
  have U10: "read_px k10 n X Y = read_px k8 n X Y"
    if "\<not> (w - sw \<le> X \<and> X < w \<and> sh \<le> Y \<and> Y < ht - sh)" for X Y
  proof -
    have "read_px k10 n X Y = read_px k9 n X Y"
      unfolding k10_def using that by (intro px_blit_outside [OF I9]) (simp add: sz S4)
    then show ?thesis by (simp add: k9_def px_alloc [OF I8])
  qed
  have U11: "read_px k11 n X Y = read_px k10 n X Y"
    if "\<not> (0 \<le> X \<and> X < sw \<and> ht - sh \<le> Y \<and> Y < ht)" for X Y
    unfolding k11_def using that
    by (intro px_blit_outside [OF I10]) (simp add: canvas_nth [OF I10] len view vshape)
  have U13: "read_px k13 n X Y = read_px k11 n X Y"
    if "\<not> (sw \<le> X \<and> X < w - sw \<and> ht - sh \<le> Y \<and> Y < ht)" for X Y
  proof -
    have "read_px k13 n X Y = read_px k12 n X Y"
      unfolding k13_def using that by (intro px_blit_outside [OF I12]) (simp add: sz S5)
    then show ?thesis by (simp add: k12_def px_alloc [OF I11])
  qed
  have U14: "read_px k14 n X Y = read_px k13 n X Y"
    if "\<not> (w - sw \<le> X \<and> X < w \<and> ht - sh \<le> Y \<and> Y < ht)" for X Y
    unfolding k14_def using that
    by (intro px_blit_outside [OF I13]) (simp add: canvas_nth [OF I13] len view vshape)
  have In1: "read_px k1 n X Y = blit_px al (read_px h0 surface X Y) (read_px h10 n X Y)"
    if "0 \<le> X" "X < sw" "0 \<le> Y" "Y < sh" for X Y
  proof -
    have "read_px k1 n X Y =
        blit_px (srcalpha (h10 ! (n + 1))) (read_px h10 (n + 1) (X - 0) (Y - 0)) (read_px h10 n X Y)"
      unfolding k1_def using that w ht sw(1) sh(1)
      by (intro px_blit_inside [OF I0]) (simp_all add: view1 vshape)
    then show ?thesis using vpx [OF I0 view(1)] by (simp add: view1 vshape)
  qed
  have In4: "read_px k4 n X Y =
      blit_px al (read_px h0 surface (X - (w - sw) + 2 * sw) Y) (read_px k3 n X Y)"
    if "w - sw \<le> X" "X < w" "0 \<le> Y" "Y < sh" for X Y
  proof -
    have "read_px k4 n X Y =
        blit_px (srcalpha (k3 ! (n + 3))) (read_px k3 (n + 3) (X - (w - sw)) (Y - 0)) (read_px k3 n X Y)"
      unfolding k4_def using that w ht sw(1) sh(1)
      by (intro px_blit_inside [OF I3]) (simp_all add: canvas_nth [OF I3] len view vshape)
    then show ?thesis using vpx [OF I3 view(3)]
      by (simp add: canvas_nth [OF I3] len view vshape)
  qed
  have In11: "read_px k11 n X Y =
      blit_px al (read_px h0 surface X (Y - (ht - sh) + 2 * sh)) (read_px k10 n X Y)"
    if "0 \<le> X" "X < sw" "ht - sh \<le> Y" "Y < ht" for X Y
  proof -
    have "read_px k11 n X Y =
        blit_px (srcalpha (k10 ! (n + 7))) (read_px k10 (n + 7) (X - 0) (Y - (ht - sh))) (read_px k10 n X Y)"
      unfolding k11_def using that w ht sw(1) sh(1)
      by (intro px_blit_inside [OF I10]) (simp_all add: canvas_nth [OF I10] len view vshape)
    then show ?thesis using vpx [OF I10 view(7)]
      by (simp add: canvas_nth [OF I10] len view vshape)
  qed
  have In14: "read_px k14 n X Y =
      blit_px al (read_px h0 surface (X - (w - sw) + 2 * sw) (Y - (ht - sh) + 2 * sh)) (read_px k13 n X Y)"
    if "w - sw \<le> X" "X < w" "ht - sh \<le> Y" "Y < ht" for X Y
  proof -
    have "read_px k14 n X Y =
        blit_px (srcalpha (k13 ! (n + 9))) (read_px k13 (n + 9) (X - (w - sw)) (Y - (ht - sh)))
          (read_px k13 n X Y)"
      unfolding k14_def using that w ht sw(1) sh(1)
      by (intro px_blit_inside [OF I13]) (simp_all add: canvas_nth [OF I13] len view vshape)
    then show ?thesis using vpx [OF I13 view(9)]
      by (simp add: canvas_nth [OF I13] len view vshape)
  qed
  have corners: "read_px k14 n i j = read_px h0 surface i j \<and>
      read_px k14 n (w - sw + i) j = read_px h0 surface (2 * sw + i) j \<and>
      read_px k14 n i (ht - sh + j) = read_px h0 surface i (2 * sh + j) \<and>
      read_px k14 n (w - sw + i) (ht - sh + j) = read_px h0 surface (2 * sw + i) (2 * sh + j)"
    if ij: "0 \<le> i" "i < sw" "0 \<le> j" "j < sh" for i j
  proof (intro conjI)
    show "read_px k14 n i j = read_px h0 surface i j"
      using ij w ht by (simp add: U14 U13 U11 U10 U8 U6 U4 U3 In1 P0)
    show "read_px k14 n (w - sw + i) j = read_px h0 surface (2 * sw + i) j"
      using ij w ht by (simp add: U14 U13 U11 U10 U8 U6 In4 U3 U1 P0 add.commute)
    show "read_px k14 n i (ht - sh + j) = read_px h0 surface i (2 * sh + j)"
      using ij w ht by (simp add: U14 U13 In11 U10 U8 U6 U4 U3 U1 P0 add.commute)
    show "read_px k14 n (w - sw + i) (ht - sh + j) = read_px h0 surface (2 * sw + i) (2 * sh + j)"
      using ij w ht by (simp add: In14 U13 U11 U10 U8 U6 U4 U3 U1 P0 add.commute)
  qed
  have reg: "width (k14 ! r) = sw \<and> height (k14 ! r) = sh \<and>
      (\<forall>X Y. read_px k14 r X Y = read_px h0 surface (vx + X) (vy + Y))"
    if "h10 ! r = V vx vy" "r < n + 10" "r \<noteq> n" for r vx vy
    using vpx [OF I14 that] canvas_nth [OF I14, of r] that by (simp add: len vshape add.commute)
  have regions: "width (k14 ! (n + 1 + 3 * r + c)) = sw \<and> height (k14 ! (n + 1 + 3 * r + c)) = sh \<and>
      (\<forall>X Y. read_px k14 (n + 1 + 3 * r + c) X Y = read_px h0 surface (int c * sw + X) (int r * sh + Y))"
    if "c < 3" "r < 3" for c r
  proof -
    have c: "c = 0 \<or> c = 1 \<or> c = 2" and r: "r = 0 \<or> r = 1 \<or> r = 2" using that by auto
    have ix: "n + 1 + 3 * 0 + 0 = n + 1" "n + 1 + 3 * 0 + 1 = n + 2" "n + 1 + 3 * 0 + 2 = n + 3"
      "n + 1 + 3 * 1 + 0 = n + 4" "n + 1 + 3 * 1 + 1 = n + 5" "n + 1 + 3 * 1 + 2 = n + 6"
      "n + 1 + 3 * 2 + 0 = n + 7" "n + 1 + 3 * 2 + 1 = n + 8" "n + 1 + 3 * 2 + 2 = n + 9"
      by simp_all
    have r1: "width (k14 ! (n + 1)) = sw \<and> height (k14 ! (n + 1)) = sh \<and>
      (\<forall>X Y. read_px k14 (n + 1) X Y = read_px h0 surface (0 + X) (0 + Y))"
      by (rule reg [OF view(1)]) simp_all
    have r2: "width (k14 ! (n + 2)) = sw \<and> height (k14 ! (n + 2)) = sh \<and>
      (\<forall>X Y. read_px k14 (n + 2) X Y = read_px h0 surface (sw + X) (0 + Y))"
      by (rule reg [OF view(2)]) simp_all
    have r3: "width (k14 ! (n + 3)) = sw \<and> height (k14 ! (n + 3)) = sh \<and>
      (\<forall>X Y. read_px k14 (n + 3) X Y = read_px h0 surface (2 * sw + X) (0 + Y))"
      by (rule reg [OF view(3)]) simp_all
    have r4: "width (k14 ! (n + 4)) = sw \<and> height (k14 ! (n + 4)) = sh \<and>
      (\<forall>X Y. read_px k14 (n + 4) X Y = read_px h0 surface (0 + X) (sh + Y))"
      by (rule reg [OF view(4)]) simp_all
    have r5: "width (k14 ! (n + 5)) = sw \<and> height (k14 ! (n + 5)) = sh \<and>
      (\<forall>X Y. read_px k14 (n + 5) X Y = read_px h0 surface (sw + X) (sh + Y))"
      by (rule reg [OF view(5)]) simp_all
    have r6: "width (k14 ! (n + 6)) = sw \<and> height (k14 ! (n + 6)) = sh \<and>
      (\<forall>X Y. read_px k14 (n + 6) X Y = read_px h0 surface (2 * sw + X) (sh + Y))"
      by (rule reg [OF view(6)]) simp_all
    have r7: "width (k14 ! (n + 7)) = sw \<and> height (k14 ! (n + 7)) = sh \<and>
      (\<forall>X Y. read_px k14 (n + 7) X Y = read_px h0 surface (0 + X) (2 * sh + Y))"
      by (rule reg [OF view(7)]) simp_all
    have r8: "width (k14 ! (n + 8)) = sw \<and> height (k14 ! (n + 8)) = sh \<and>
      (\<forall>X Y. read_px k14 (n + 8) X Y = read_px h0 surface (sw + X) (2 * sh + Y))"
      by (rule reg [OF view(8)]) simp_all
    have r9: "width (k14 ! (n + 9)) = sw \<and> height (k14 ! (n + 9)) = sh \<and>
      (\<forall>X Y. read_px k14 (n + 9) X Y = read_px h0 surface (2 * sw + X) (2 * sh + Y))"
      by (rule reg [OF view(9)]) simp_all
    show ?thesis
      using c r r1 r2 r3 r4 r5 r6 r7 r8 r9
      by (elim disjE; simp only: ix of_nat_0 of_nat_1 of_nat_numeral mult_zero_left mult_1; simp)
  qed
  have frame: "k14 ! r = h0 ! r" if "r < length h0" for r
    using canvas_nth [OF I14, of r] that old [of r] by (simp add: len n_def)
  have shape: "width (k14 ! n) = w" "height (k14 ! n) = ht" "srcalpha (k14 ! n)" "wf_heap k14"
    "\<exists>f. mem (k14 ! n) = Own f"
    using I14 by (simp_all add: canvas_inv_def)
  show ?thesis
    using run L14 frame shape corners regions
    unfolding n_def [symmetric] sw_def [symmetric] sh_def [symmetric]
    by (intro exI [of _ k14]) simp
qed

subsection \<open>Memoised calls\<close>

lemma lru_cache_hit:
  "map_of (get s) k = Some r \<Longrightarrow>
   lru_cache n get put f k s = Inr (r, put ((k, r) # filter (\<lambda>e. fst e \<noteq> k) (get s)) s)"
  by (simp add: lru_cache_def)

lemma lru_cache_miss:
  "map_of (get s) k = None \<Longrightarrow>
   lru_cache n get put f k s =
     then_do (f k s) (\<lambda>(r, s'). Inr (r, put (take n ((k, r) # get s')) s'))"
  by (simp add: lru_cache_def)

lemma font_body_file:
  "font_body E (size_pt, name) st =
     then_do (then_do (font_path E name) (\<lambda>p. pygame_font_Font E p size_pt)) (\<lambda>f. Inr (f, st))"
  by (cases "font_path E name") (simp_all add: font_body_def then_do_def)

lemma font_result:
  assumes "font_cache_ok E st"
  shows "map_sum id fst (font E k st) = map_sum id fst (font_body E k st)"
proof (cases "map_of (font_cache st) k")
  case None
  then show ?thesis
    by (cases "font_body E k st") (auto simp: font_def lru_cache_miss)
next
  case (Some f)
  obtain size_pt name where k: "k = (size_pt, name)" by (cases k)
  have "((size_pt, name), f) \<in> set (font_cache st)" using Some unfolding k by (rule map_of_SomeD)
  then have "then_do (font_path E name) (\<lambda>p. pygame_font_Font E p size_pt) = Inr f"
    using assms unfolding font_cache_ok_def by fastforce
  then have "font_body E k st = Inr (f, st)" unfolding k font_body_file by simp
  then show ?thesis using Some by (simp add: font_def lru_cache_hit)
qed

lemma font_body_NoName: "font_body E (size_pt, NoName) st = font_body E (size_pt, Name ''regular'') st"
  by (simp add: font_body_def font_path_def or_regular_def)

lemma font_cache_ok_font:
  assumes ok: "font_cache_ok E st" and run: "font E k st = Inr (f, st')"
  shows "font_cache_ok E st'"
proof (cases "map_of (font_cache st) k")
  case None
  obtain size_pt name where k: "k = (size_pt, name)" by (cases k)
  from run None obtain st0 where body: "font_body E k st = Inr (f, st0)"
    and st': "st' = st0\<lparr>font_cache := take 128 ((k, f) # font_cache st0)\<rparr>"
    by (cases "font_body E k st") (auto simp: font_def lru_cache_miss)
  have new: "then_do (font_path E name) (\<lambda>p. pygame_font_Font E p size_pt) = Inr f" and st0: "st0 = st"
    using body unfolding k font_body_file
    by (cases "then_do (font_path E name) (\<lambda>p. pygame_font_Font E p size_pt)"; simp)+
  have "set (font_cache st') \<subseteq> insert (k, f) (set (font_cache st))"
    unfolding st' st0 using set_take_subset [of 128 "(k, f) # font_cache st"] by auto
  then show ?thesis using ok new unfolding font_cache_ok_def k by fastforce
next
  case (Some g)
  then have "(k, g) \<in> set (font_cache st)" by (rule map_of_SomeD)
  moreover have "st' = st\<lparr>font_cache := (k, g) # filter (\<lambda>e. fst e \<noteq> k) (font_cache st)\<rparr>"
    using run Some by (auto simp: font_def lru_cache_hit)
  ultimately have "set (font_cache st') \<subseteq> set (font_cache st)" by auto
  then show ?thesis using ok unfolding font_cache_ok_def by fastforce
qed

subsection \<open>\<open>ninepatch\<close> and its cache\<close>

lemma c_int_fits: "fits_c_int v \<Longrightarrow> c_int v = v"
  by (simp add: fits_c_int_def c_int_def)

lemma on_heap_Inr: "f (heap st) = Inr (r, h') \<Longrightarrow> on_heap f st = Inr (r, st\<lparr>heap := h'\<rparr>)"
  by (simp add: on_heap_def)

lemma on_heap_Inl: "f (heap st) = Inl e \<Longrightarrow> on_heap f st = Inl e"
  by (simp add: on_heap_def)

lemma read_px_frame:
  assumes wf: "wf_heap h" and r: "r < length h" and len: "length h \<le> length h'"
    and same: "\<forall>q < length h. h' ! q = h ! q"
  shows "read_px h' r = read_px h r"
proof -
  obtain p ox oy where o: "owner h r = (p, ox, oy)" by (cases "owner h r")
  have p: "p < length h" using wf_owner [OF wf r o] by simp
  have "h' ! r = h ! r" "h' ! p = h ! p" using same r p by simp_all
  then show ?thesis using o by (intro ext) (simp add: read_px_def owner_def raw_def)
qed

lemma ninepatch_cache_okD:
  assumes "ninepatch_cache_ok st" "((s, (x, y, w, ht)), r) \<in> set (ninepatch_cache st)"
  shows "r < length (heap st)" "width (heap st ! r) = c_int w" "height (heap st ! r) = c_int ht"
  using assms unfolding ninepatch_cache_ok_def by fastforce+

lemma ninepatch_cache_okI:
  assumes "\<And>s x y w ht r. ((s, (x, y, w, ht)), r) \<in> set (ninepatch_cache st) \<Longrightarrow>
     r < length (heap st) \<and> width (heap st ! r) = c_int w \<and> height (heap st ! r) = c_int ht"
  shows "ninepatch_cache_ok st"
  unfolding ninepatch_cache_ok_def using assms by auto

text \<open>The cache stays as described when surfaces are added and drawn on.\<close>

lemma ninepatch_cache_ok_later:
  assumes ok: "ninepatch_cache_ok st"
    and sub: "set (ninepatch_cache st') \<subseteq> set (ninepatch_cache st)"
    and len: "length (heap st) \<le> length (heap st')"
    and shape: "\<forall>r < length (heap st). width (heap st' ! r) = width (heap st ! r) \<and>
                  height (heap st' ! r) = height (heap st ! r)"
  shows "ninepatch_cache_ok st'"
proof (rule ninepatch_cache_okI)
  fix s x y w ht r
  assume "((s, (x, y, w, ht)), r) \<in> set (ninepatch_cache st')"
  then have "((s, (x, y, w, ht)), r) \<in> set (ninepatch_cache st)" using sub by auto
  from ninepatch_cache_okD [OF ok this]
  show "r < length (heap st') \<and> width (heap st' ! r) = c_int w \<and> height (heap st' ! r) = c_int ht"
    using len shape by auto
qed


lemma ninepatch_hit:
  assumes "map_of (ninepatch_cache st) key = Some r"
  shows "ninepatch E key st =
     Inr (r, st\<lparr>ninepatch_cache := (key, r) # filter (\<lambda>e. fst e \<noteq> key) (ninepatch_cache st)\<rparr>)"
  using assms by (simp add: ninepatch_def lru_cache_hit)

lemma ninepatch_miss:
  assumes wf: "wf_heap (heap st)" and s: "surface < length (heap st)"
    and W: "2 * (width (heap st ! surface) div 3) \<le> c_int w"
    and H: "2 * (height (heap st ! surface) div 3) \<le> c_int ht"
    and miss: "map_of (ninepatch_cache st) (surface, (x, y, w, ht)) = None"
  shows "\<exists>h'. ninepatch E (surface, (x, y, w, ht)) st =
           Inr (length (heap st),
                st\<lparr>heap := h', ninepatch_cache :=
                     take 100 (((surface, (x, y, w, ht)), length (heap st)) # ninepatch_cache st)\<rparr>) \<and>
           length h' = length (heap st) + 15 \<and> (\<forall>r < length (heap st). h' ! r = heap st ! r) \<and>
           wf_heap h' \<and> width (h' ! length (heap st)) = c_int w \<and>
           height (h' ! length (heap st)) = c_int ht \<and>
           (\<exists>f. mem (h' ! length (heap st)) = Own f) \<and>
           corners_copied (heap st) surface h' (length (heap st))"
proof -
  from ninepatch_body_spec [OF wf s refl refl W H, of E x y]
  obtain h' where run: "ninepatch_body E (surface, (x, y, w, ht)) (heap st) = Inr (length (heap st), h')"
    and len: "length h' = length (heap st) + 15"
    and frame: "\<forall>r < length (heap st). h' ! r = heap st ! r"
    and wf': "wf_heap h'"
    and dims: "width (h' ! length (heap st)) = c_int w" "height (h' ! length (heap st)) = c_int ht"
    and own: "\<exists>f. mem (h' ! length (heap st)) = Own f"
    and corners: "\<forall>i j. 0 \<le> i \<and> i < width (heap st ! surface) div 3 \<and> 0 \<le> j \<and>
           j < height (heap st ! surface) div 3 \<longrightarrow>
              read_px h' (length (heap st)) i j = read_px (heap st) surface i j \<and>
              read_px h' (length (heap st)) (c_int w - width (heap st ! surface) div 3 + i) j =
                read_px (heap st) surface (2 * (width (heap st ! surface) div 3) + i) j \<and>
              read_px h' (length (heap st)) i (c_int ht - height (heap st ! surface) div 3 + j) =
                read_px (heap st) surface i (2 * (height (heap st ! surface) div 3) + j) \<and>
              read_px h' (length (heap st)) (c_int w - width (heap st ! surface) div 3 + i)
                  (c_int ht - height (heap st ! surface) div 3 + j) =
                read_px (heap st) surface (2 * (width (heap st ! surface) div 3) + i)
                  (2 * (height (heap st ! surface) div 3) + j)"
    by blast
  have cc: "corners_copied (heap st) surface h' (length (heap st))"
    unfolding corners_copied_def Let_def dims using corners by simp
  have "ninepatch E (surface, (x, y, w, ht)) st =
      Inr (length (heap st),
           st\<lparr>heap := h', ninepatch_cache :=
                take 100 (((surface, (x, y, w, ht)), length (heap st)) # ninepatch_cache st)\<rparr>)"
    using miss run by (simp add: ninepatch_def lru_cache_miss on_heap_def)
  then show ?thesis using len frame wf' dims own cc by blast
qed

lemma ninepatch_frame:
  assumes wf: "wf_heap (heap st)" and s: "surface < length (heap st)"
    and W: "2 * (width (heap st ! surface) div 3) \<le> c_int w"
    and H: "2 * (height (heap st ! surface) div 3) \<le> c_int ht"
  shows "\<exists>r st'. ninepatch E (surface, (x, y, w, ht)) st = Inr (r, st') \<and>
           length (heap st) \<le> length (heap st') \<and>
           (\<forall>q < length (heap st). heap st' ! q = heap st ! q) \<and> wf_heap (heap st') \<and>
           st' = st\<lparr>heap := heap st', ninepatch_cache := ninepatch_cache st'\<rparr>"
proof (cases "map_of (ninepatch_cache st) (surface, (x, y, w, ht))")
  case None
  from ninepatch_miss [OF wf s W H None, of E] show ?thesis by auto
next
  case (Some r)
  show ?thesis unfolding ninepatch_hit [OF Some] using wf by simp
qed


lemma ex_world_facts:
  "wf_heap (heap ex_world)" "0 < length (heap ex_world)"
  "width (heap ex_world ! 0) = 9" "height (heap ex_world ! 0) = 9"
  "ninepatch_cache_ok ex_world"
  "read_px (heap ex_world) 0 X Y = (40 * (X div 3), 40 * (Y div 3), 7, 255)"
  "ninepatch_cache ex_world = []"
  by (simp_all add: ex_world_def ex_button_def ex_icon_def wf_heap_def wf_surface_def
      ninepatch_cache_ok_def read_px_def owner_def raw_def with_alpha_def)

lemma ninepatch_body_regions:
  assumes "wf_heap h" and "surface < length h"
    and "2 * (width (h ! surface) div 3) \<le> c_int w" and "2 * (height (h ! surface) div 3) \<le> c_int ht"
  shows "\<exists>r h'. ninepatch_body E (surface, (x, y, w, ht)) h = Inr (r, h') \<and>
           (\<forall>c < 3. \<forall>q < 3.
              width (h' ! (r + 1 + 3 * q + c)) = width (h ! surface) div 3 \<and>
              height (h' ! (r + 1 + 3 * q + c)) = height (h ! surface) div 3 \<and>
              (\<forall>i j. read_px h' (r + 1 + 3 * q + c) i j =
                 read_px h surface (int c * (width (h ! surface) div 3) + i)
                   (int q * (height (h ! surface) div 3) + j)))"
  using ninepatch_body_spec [OF assms(1,2) refl refl assms(3,4), of E x y] by blast

lemma ex_button10_facts:
  "wf_heap [ex_button10]" "0 < length [ex_button10]"
  "width ([ex_button10] ! 0) = 10" "height ([ex_button10] ! 0) = 10"
  by (simp_all add: ex_button10_def wf_heap_def wf_surface_def)

subsection \<open>The order of the keys in a cache\<close>

lemma map_fst_filter_neq: "map fst (filter (\<lambda>e. fst e \<noteq> k) xs) = removeAll k (map fst xs)"
  by (induction xs) auto

lemma take_removeAll:
  "distinct L \<Longrightarrow> take m (removeAll k (take (Suc m) L)) = take m (removeAll k L)"
proof (induction L arbitrary: m)
  case Nil
  then show ?case by simp
next
  case (Cons a L)
  show ?case
  proof (cases "a = k")
    case True
    then have "k \<notin> set L" using Cons.prems by simp
    moreover from this have "k \<notin> set (take m L)" by (auto dest: in_set_takeD)
    ultimately have "removeAll k (take m L) = take m L" "removeAll k L = L"
      by (simp_all add: removeAll_id)
    then show ?thesis using True by simp
  next
    case False
    show ?thesis
    proof (cases m)
      case 0
      then show ?thesis by simp
    next
      case (Suc m')
      have "take m' (removeAll k (take (Suc m') L)) = take m' (removeAll k L)"
        using Cons.IH [of m'] Cons.prems by simp
      then show ?thesis using False Suc by simp
    qed
  qed
qed

lemma used_take: "distinct L \<Longrightarrow> used n k (take n L) = used n k L"
  by (cases n) (simp_all add: used_def take_removeAll)

lemma distinct_used: "distinct keys \<Longrightarrow> distinct (used n k keys)"
  by (simp add: used_def distinct_removeAll)

lemma length_used: "length (used n k keys) \<le> n"
  by (simp add: used_def)

lemma remdups_snoc: "remdups (ks @ [k]) = removeAll k (remdups ks) @ [k]"
  by (induction ks) auto

lemma rev_removeAll: "rev (removeAll k xs) = removeAll k (rev xs)"
  by (induction xs) auto

lemma rev_remdups_snoc: "rev (remdups (ks @ [k])) = k # removeAll k (rev (remdups ks))"
  by (simp add: remdups_snoc rev_removeAll)

lemma fold_used: "fold (used n) ks [] = take n (rev (remdups ks))"
proof (induction ks rule: rev_induct)
  case Nil
  then show ?case by simp
next
  case (snoc k ks)
  have "fold (used n) (ks @ [k]) [] = used n k (take n (rev (remdups ks)))"
    using snoc by simp
  also have "\<dots> = used n k (rev (remdups ks))"
    by (rule used_take) simp
  also have "\<dots> = take n (rev (remdups (ks @ [k])))"
    by (simp only: used_def rev_remdups_snoc)
  finally show ?case .
qed

lemma lru_cache_keys:
  assumes gp: "\<And>c s. get (put c s) = c"
    and fp: "\<And>v s'. f k s = Inr (v, s') \<Longrightarrow> get s' = get s"
    and d: "distinct (map fst (get s))" and l: "length (get s) \<le> n"
    and run: "lru_cache n get put f k s = Inr (v, s')"
  shows "map fst (get s') = used n k (map fst (get s))"
proof (cases "map_of (get s) k")
  case None
  then have notin: "k \<notin> set (map fst (get s))" by (simp add: map_of_eq_None_iff)
  from run None obtain s0 where f: "f k s = Inr (v, s0)"
    and s': "s' = put (take n ((k, v) # get s0)) s0"
    by (cases "f k s") (auto simp: lru_cache_miss)
  have "get s0 = get s" using fp [OF f] .
  moreover have "map fst (take n ((k, v) # get s0)) = take n (map fst ((k, v) # get s0))"
    by (rule take_map [symmetric])
  ultimately have "map fst (get s') = take n (k # map fst (get s))"
    unfolding s' gp by simp
  then show ?thesis using notin by (simp add: used_def removeAll_id)
next
  case (Some r)
  then have "(k, r) \<in> set (get s)" by (rule map_of_SomeD)
  then have mem: "k \<in> set (map fst (get s))" by force
  have s': "s' = put ((k, r) # filter (\<lambda>e. fst e \<noteq> k) (get s)) s"
    using run Some by (auto simp: lru_cache_hit)
  have keys: "map fst (get s') = k # removeAll k (map fst (get s))"
    unfolding s' gp by (simp add: map_fst_filter_neq)
  have "length (removeAll k (map fst (get s))) < length (map fst (get s))"
    using mem by (rule length_removeAll_less)
  then have "length (k # removeAll k (map fst (get s))) \<le> n" using l by simp
  then show ?thesis unfolding keys used_def by simp
qed

lemma calls_keys:
  assumes gp: "\<And>c s. get (put c s) = c"
    and fp: "\<And>k v s s'. f k s = Inr (v, s') \<Longrightarrow> get s' = get s"
    and d: "distinct (map fst (get s))" and l: "length (get s) \<le> n"
  shows "map fst (get (calls (lru_cache n get put f) ks s)) =
           fold (used n) (returned (lru_cache n get put f) ks s) (map fst (get s))"
  using d l
proof (induction ks arbitrary: s)
  case Nil
  then show ?case by simp
next
  case (Cons k ks)
  show ?case
  proof (cases "lru_cache n get put f k s")
    case (Inl e)
    then show ?thesis using Cons by simp
  next
    case (Inr p)
    obtain v s' where p: "p = (v, s')" by (cases p)
    have keys: "map fst (get s') = used n k (map fst (get s))"
    proof (rule lru_cache_keys [of get put f k s n v s'])
      show "get (put c t) = c" for c t by (rule gp)
      show "get t = get s" if "f k s = Inr (u, t)" for u t using that by (rule fp)
      show "distinct (map fst (get s))" by (rule Cons.prems(1))
      show "length (get s) \<le> n" by (rule Cons.prems(2))
      show "lru_cache n get put f k s = Inr (v, s')" using Inr p by simp
    qed
    have d': "distinct (map fst (get s'))"
      unfolding keys by (rule distinct_used [OF Cons.prems(1)])
    have "length (map fst (get s')) \<le> n"
      unfolding keys by (rule length_used)
    then have l': "length (get s') \<le> n" by simp
    from Cons.IH [OF d' l'] show ?thesis using Inr p keys by simp
  qed
qed

lemma calls_keys_empty:
  assumes gp: "\<And>c s. get (put c s) = c"
    and fp: "\<And>k v s s'. f k s = Inr (v, s') \<Longrightarrow> get s' = get s"
    and e: "get s = []"
  shows "map fst (get (calls (lru_cache n get put f) ks s)) =
           take n (rev (remdups (returned (lru_cache n get put f) ks s)))"
proof -
  have "map fst (get (calls (lru_cache n get put f) ks s)) =
      fold (used n) (returned (lru_cache n get put f) ks s) (map fst (get s))"
  proof (rule calls_keys)
    show "get (put c t) = c" for c t by (rule gp)
    show "get t' = get t" if "f k t = Inr (v, t')" for k v t t' using that by (rule fp)
    show "distinct (map fst (get s))" "length (get s) \<le> n" using e by simp_all
  qed
  then show ?thesis using e by (simp add: fold_used)
qed

subsection \<open>The caches of the module\<close>

lemma on_heap_rest: "on_heap g st = Inr (r, st') \<Longrightarrow> st' = st\<lparr>heap := heap st'\<rparr>"
  by (cases "g (heap st)") (auto simp: on_heap_def)

lemma font_rest: "font E k st = Inr (f, st') \<Longrightarrow> st' = st\<lparr>font_cache := font_cache st'\<rparr>"
proof (cases "map_of (font_cache st) k")
  case None
  assume "font E k st = Inr (f, st')"
  then show ?thesis using None
    by (cases "font_body E k st"; cases k)
       (auto simp: font_def lru_cache_miss font_body_file then_do_def split: sum.splits)
next
  case (Some g)
  assume "font E k st = Inr (f, st')"
  then show ?thesis using Some by (auto simp: font_def lru_cache_hit)
qed

lemma text_body_cache:
  assumes run: "text_body E k st = Inr (r, st')"
  shows "text_cache st' = text_cache st"
proof -
  obtain msg color size_arg name_arg where k: "k = (msg, color, size_arg, name_arg)" by (cases k)
  define size_pt where "size_pt = (case size_arg of None \<Rightarrow> 20 | Some v \<Rightarrow> v)"
  define name where "name = (case name_arg of None \<Rightarrow> NoName | Some v \<Rightarrow> v)"
  have body: "text_body E k st =
      then_do (font E (size_pt, name) st) (\<lambda>(f, w).
        case Font_render E f msg color (heap w) of (r, h) \<Rightarrow> Inr (r, w\<lparr>heap := h\<rparr>))"
    by (simp add: text_body_def k size_pt_def name_def)
  show ?thesis
  proof (cases "font E (size_pt, name) st")
    case (Inl e)
    then show ?thesis using run by (simp add: body)
  next
    case (Inr p)
    obtain f w where p: "p = (f, w)" by (cases p)
    have "w = st\<lparr>font_cache := font_cache w\<rparr>"
      using Inr p by (intro font_rest [of E "(size_pt, name)" st f w]) simp
    then have "text_cache w = text_cache st"
      by (metis world.select_convs(4) world.surjective world.update_convs(3))
    then show ?thesis using run Inr p
      by (auto simp: body split: prod.splits)
  qed
qed

lemma text_calls_keys:
  assumes "text_cache st = []"
  shows "map fst (text_cache (calls (text_fn E) ks st)) =
           take 5000 (rev (remdups (returned (text_fn E) ks st)))"
  unfolding text_fn_def
proof (rule calls_keys_empty)
  show "text_cache (c\<lparr>text_cache := t\<rparr>) = t" for c t by simp
  show "text_cache t' = text_cache t" if "text_body E k t = Inr (v, t')" for k v t t'
    using that by (rule text_body_cache)
  show "text_cache st = []" by (rule assms)
qed

lemma on_heap_ninepatch_cache:
  assumes "on_heap g t = Inr (v, t')"
  shows "ninepatch_cache t' = ninepatch_cache t"
proof -
  have "t' = t\<lparr>heap := heap t'\<rparr>" using assms by (rule on_heap_rest)
  then show ?thesis by (metis world.select_convs(5) world.surjective world.update_convs(1))
qed

lemma ninepatch_calls_keys:
  assumes "ninepatch_cache st = []"
  shows "map fst (ninepatch_cache (calls (ninepatch E) ks st)) =
           take 100 (rev (remdups (returned (ninepatch E) ks st)))"
  unfolding ninepatch_def
proof (rule calls_keys_empty)
  show "ninepatch_cache (c\<lparr>ninepatch_cache := t\<rparr>) = t" for c t by simp
  show "ninepatch_cache t' = ninepatch_cache t"
    if "on_heap (ninepatch_body E k) t = Inr (v, t')" for k v t t'
    using that by (rule on_heap_ninepatch_cache)
  show "ninepatch_cache st = []" by (rule assms)
qed

text \<open>A series of calls of \<open>ninepatch\<close> with valid arguments: every call returns, and the
  surfaces that were there are as they were.\<close>

lemma ninepatch_calls_return:
  assumes "wf_heap (heap st)"
    and "\<forall>(s, (x, y, w, ht)) \<in> set ks. s < length (heap st) \<and>
           2 * (width (heap st ! s) div 3) \<le> c_int w \<and> 2 * (height (heap st ! s) div 3) \<le> c_int ht"
  shows "returned (ninepatch E) ks st = ks \<and> wf_heap (heap (calls (ninepatch E) ks st)) \<and>
         length (heap st) \<le> length (heap (calls (ninepatch E) ks st)) \<and>
         (\<forall>q < length (heap st). heap (calls (ninepatch E) ks st) ! q = heap st ! q)"
  using assms
proof (induction ks arbitrary: st)
  case Nil
  then show ?case by simp
next
  case (Cons k ks)
  obtain s x y w ht where k: "k = (s, (x, y, w, ht))" by (cases k) auto
  have valid: "s < length (heap st)" "2 * (width (heap st ! s) div 3) \<le> c_int w"
    "2 * (height (heap st ! s) div 3) \<le> c_int ht"
    using Cons.prems(2) unfolding k by auto
  from ninepatch_frame [OF Cons.prems(1) valid, of E x y]
  obtain r st' where run: "ninepatch E k st = Inr (r, st')"
    and len: "length (heap st) \<le> length (heap st')"
    and frame: "\<forall>q < length (heap st). heap st' ! q = heap st ! q"
    and wf': "wf_heap (heap st')"
    unfolding k by blast
  have "\<forall>(s, (x, y, w, ht)) \<in> set ks. s < length (heap st') \<and>
           2 * (width (heap st' ! s) div 3) \<le> c_int w \<and> 2 * (height (heap st' ! s) div 3) \<le> c_int ht"
    using Cons.prems(2) len frame by fastforce
  from Cons.IH [OF wf' this]
  have IH: "returned (ninepatch E) ks st' = ks" "wf_heap (heap (calls (ninepatch E) ks st'))"
    "length (heap st') \<le> length (heap (calls (ninepatch E) ks st'))"
    "\<forall>q < length (heap st'). heap (calls (ninepatch E) ks st') ! q = heap st' ! q"
    by simp_all
  show ?case using run IH len frame by auto
qed

lemma ex_keys_facts:
  "\<forall>(s, (x, y, w, ht)) \<in> set ex_keys. s < length (heap ex_world) \<and>
     2 * (width (heap ex_world ! s) div 3) \<le> c_int w \<and> 2 * (height (heap ex_world ! s) div 3) \<le> c_int ht"
  "distinct ex_keys" "length ex_keys = 101" "hd ex_keys = (0, (0, 0, 6, 6))"
  "(0, (0, 0, 6, 6)) \<notin> set (take 100 (rev ex_keys))"
proof -
  have c: "c_int (6 + int i) = 6 + int i" if "i < 101" for i
    using that by (intro c_int_fits) (simp add: fits_c_int_def)
  show "\<forall>(s, (x, y, w, ht)) \<in> set ex_keys. s < length (heap ex_world) \<and>
     2 * (width (heap ex_world ! s) div 3) \<le> c_int w \<and> 2 * (height (heap ex_world ! s) div 3) \<le> c_int ht"
    using c ex_world_facts(2,3,4) by (auto simp: ex_keys_def c_int_def)
  show "distinct ex_keys" by (simp add: ex_keys_def distinct_map inj_on_def)
  show "length ex_keys = 101" by (simp add: ex_keys_def)
  have split: "ex_keys = (0, (0, 0, 6, 6)) # map (\<lambda>i. (0, (0, 0, 6 + int i, 6))) [1 ..< 101]"
    by (simp add: ex_keys_def upt_conv_Cons)
  show "hd ex_keys = (0, (0, 0, 6, 6))" by (simp add: split)
  have "take 100 (rev ex_keys) = rev (map (\<lambda>i. (0 :: nat, (0 :: int, 0 :: int, 6 + int i, 6 :: int))) [1 ..< 101])"
    unfolding split by simp
  then show "(0, (0, 0, 6, 6)) \<notin> set (take 100 (rev ex_keys))" by auto
qed

subsection \<open>Missing files\<close>

lemma load_image_body_missing:
  assumes "png_files E ((case base_arg of None \<Rightarrow> ASSETS E | Some v \<Rightarrow> v) @ [name @ ''.png'']) = None"
  shows "load_image_body E (name, scale_arg, alpha_arg, base_arg) h = Inl FileNotFoundError"
  using assms by (simp add: load_image_body_def pygame_image_load_def)

lemma load_image_body_found:
  assumes "load_image_body E (name, scale_arg, alpha_arg, base_arg) h = Inr p"
  shows "png_files E ((case base_arg of None \<Rightarrow> ASSETS E | Some v \<Rightarrow> v) @ [name @ ''.png'']) \<noteq> None"
  using assms load_image_body_missing [where base_arg = base_arg and E = E and name = name
      and scale_arg = scale_arg and alpha_arg = alpha_arg and h = h] by auto

lemma load_image_cache_ok_load_image:
  assumes ok: "load_image_cache_ok E st" and run: "load_image E k st = Inr (r, st')"
  shows "load_image_cache_ok E st'"
proof (cases "map_of (load_image_cache st) k")
  case None
  obtain name scale_arg alpha_arg base_arg where k: "k = (name, scale_arg, alpha_arg, base_arg)"
    by (cases k)
  from run None obtain st0 where body: "on_heap (load_image_body E k) st = Inr (r, st0)"
    and st': "st' = st0\<lparr>load_image_cache := take 128 ((k, r) # load_image_cache st0)\<rparr>"
    by (cases "on_heap (load_image_body E k) st") (auto simp: load_image_def lru_cache_miss)
  have "st0 = st\<lparr>heap := heap st0\<rparr>" using body by (rule on_heap_rest)
  then have c0: "load_image_cache st0 = load_image_cache st"
    by (metis world.select_convs(2) world.surjective world.update_convs(1))
  obtain p where "load_image_body E k (heap st) = Inr p"
    using body by (cases "load_image_body E k (heap st)") (auto simp: on_heap_def)
  then have new: "png_files E ((case base_arg of None \<Rightarrow> ASSETS E | Some v \<Rightarrow> v) @ [name @ ''.png'']) \<noteq> None"
    unfolding k by (rule load_image_body_found)
  have "set (load_image_cache st') \<subseteq> insert (k, r) (set (load_image_cache st))"
    unfolding st' using c0 set_take_subset [of 128 "(k, r) # load_image_cache st"] by auto
  then show ?thesis using ok new unfolding load_image_cache_ok_def k by fastforce
next
  case (Some g)
  then have "(k, g) \<in> set (load_image_cache st)" by (rule map_of_SomeD)
  moreover have "st' = st\<lparr>load_image_cache := (k, g) # filter (\<lambda>e. fst e \<noteq> k) (load_image_cache st)\<rparr>"
    using run Some by (auto simp: load_image_def lru_cache_hit)
  ultimately have "set (load_image_cache st') \<subseteq> set (load_image_cache st)" by auto
  then show ?thesis using ok unfolding load_image_cache_ok_def by fastforce
qed



subsection \<open>What a call leaves in the cache\<close>






lemma ninepatch_calls_grow:
  assumes wf: "wf_heap (heap st)"
    and valid: "\<forall>(s, (x, y, w, ht)) \<in> set (k # ks). s < length (heap st) \<and>
           2 * (width (heap st ! s) div 3) \<le> c_int w \<and> 2 * (height (heap st ! s) div 3) \<le> c_int ht"
    and empty: "ninepatch_cache st = []"
  shows "length (heap st) + 15 \<le> length (heap (calls (ninepatch E) (k # ks) st))"
proof -
  obtain s x y w ht where k: "k = (s, (x, y, w, ht))" by (cases k) auto
  have v: "s < length (heap st)" "2 * (width (heap st ! s) div 3) \<le> c_int w"
    "2 * (height (heap st ! s) div 3) \<le> c_int ht"
    using valid unfolding k by auto
  have miss: "map_of (ninepatch_cache st) (s, (x, y, w, ht)) = None" using empty by simp
  from ninepatch_miss [OF wf v miss, of E]
  obtain h' where run: "ninepatch E k st = Inr (length (heap st),
        st\<lparr>heap := h', ninepatch_cache := take 100 ((k, length (heap st)) # ninepatch_cache st)\<rparr>)"
    and len: "length h' = length (heap st) + 15"
    and frame: "\<forall>r < length (heap st). h' ! r = heap st ! r" and wf': "wf_heap h'"
    unfolding k by blast
  let ?st = "st\<lparr>heap := h', ninepatch_cache := take 100 ((k, length (heap st)) # ninepatch_cache st)\<rparr>"
  have "\<forall>(s, (x, y, w, ht)) \<in> set ks. s < length (heap ?st) \<and>
      2 * (width (heap ?st ! s) div 3) \<le> c_int w \<and> 2 * (height (heap ?st ! s) div 3) \<le> c_int ht"
    using valid len frame by fastforce
  moreover have "wf_heap (heap ?st)" using wf' by simp
  ultimately have "length (heap ?st) \<le> length (heap (calls (ninepatch E) ks ?st))"
    using ninepatch_calls_return [of ?st ks E] by blast
  then show ?thesis using run len by simp
qed

lemma font_cache_ok_text:
  assumes ok: "font_cache_ok E st" and run: "text_fn E k st = Inr (r, st')"
  shows "font_cache_ok E st'"
proof (cases "map_of (text_cache st) k")
  case (Some v)
  then have "font_cache st' = font_cache st"
    using run by (auto simp: text_fn_def lru_cache_hit)
  then show ?thesis using ok by (simp add: font_cache_ok_def)
next
  case None
  obtain msg color size_arg name_arg where k: "k = (msg, color, size_arg, name_arg)" by (cases k)
  define size_pt where "size_pt = (case size_arg of None \<Rightarrow> 20 | Some v \<Rightarrow> v)"
  define name where "name = (case name_arg of None \<Rightarrow> NoName | Some v \<Rightarrow> v)"
  have body: "text_body E k st =
      then_do (font E (size_pt, name) st) (\<lambda>(f, w).
        case Font_render E f msg color (heap w) of (r, h) \<Rightarrow> Inr (r, w\<lparr>heap := h\<rparr>))"
    by (simp add: text_body_def k size_pt_def name_def)
  from run None obtain st0 where tb: "text_body E k st = Inr (r, st0)"
    and st': "st' = st0\<lparr>text_cache := take 5000 ((k, r) # text_cache st0)\<rparr>"
    by (cases "text_body E k st") (auto simp: text_fn_def lru_cache_miss)
  from tb obtain f w where fr: "font E (size_pt, name) st = Inr (f, w)"
    and st0: "font_cache st0 = font_cache w"
    unfolding body by (cases "font E (size_pt, name) st") (auto split: prod.splits)
  have "font_cache_ok E w" using ok fr by (rule font_cache_ok_font)
  then show ?thesis by (simp add: font_cache_ok_def st' st0)
qed

subsection \<open>What the other functions leave of the heap and of the cache of \<open>ninepatch\<close>\<close>

lemma wf_heap_blit_any:
  assumes wf: "wf_heap h" and d: "d < length h"
  shows "wf_heap (blit d s pos h)"
proof -
  obtain p ox oy where o: "owner h d = (p, ox, oy)" by (cases "owner h d")
  from wf_owner [OF wf d o] obtain f where f: "mem (h ! p) = Own f" and p: "p < length h" by blast
  obtain dx dy where pos: "pos = (dx, dy)" by (cases pos)
  have "\<exists>g. blit d s pos h = h[p := (h ! p)\<lparr>mem := Own g\<rparr>]"
    unfolding pos blit_def prod.case o by (rule exI, rule refl)
  then obtain g where eq: "blit d s pos h = h[p := (h ! p)\<lparr>mem := Own g\<rparr>]" ..
  have "wf_surface (h[p := (h ! p)\<lparr>mem := Own g\<rparr>]) (h[p := (h ! p)\<lparr>mem := Own g\<rparr>] ! i)"
    if i: "i < length h" for i
  proof (cases "i = p")
    case True
    have "wf_surface h (h ! p)" using wf_heap_nth [OF wf p] .
    then show ?thesis using True p by (simp add: wf_surface_def)
  next
    case False
    have "wf_surface h (h ! i)" using wf_heap_nth [OF wf i] .
    then have "wf_surface (h[p := (h ! p)\<lparr>mem := Own g\<rparr>]) (h ! i)"
      by (rule wf_surface_upd [OF f])
    then show ?thesis using False by simp
  qed
  then show ?thesis unfolding eq by (simp add: wf_heap_def list_all_length)
qed

lemma load_image_body_grows:
  assumes "load_image_body E k h = Inr (r, h')"
  shows "\<exists>ys. h' = h @ ys"
  using assms
  by (cases k)
     (auto simp: load_image_body_def pygame_image_load_def transform_scale_def convert_alpha_def
        convert_def alloc_def then_do_def Let_def split: option.splits if_splits sum.splits)

lemma ninepatch_cache_ok_load_image:
  assumes ok: "ninepatch_cache_ok st" and run: "load_image E k st = Inr (r, st')"
  shows "ninepatch_cache_ok st'"
proof (cases "map_of (load_image_cache st) k")
  case (Some v)
  then have "st' = st\<lparr>load_image_cache := (k, v) # filter (\<lambda>e. fst e \<noteq> k) (load_image_cache st)\<rparr>"
    using run by (auto simp: load_image_def lru_cache_hit)
  then show ?thesis using ok by (simp add: ninepatch_cache_ok_def)
next
  case None
  from run None obtain st0 where body: "on_heap (load_image_body E k) st = Inr (r, st0)"
    and st': "st' = st0\<lparr>load_image_cache := take 128 ((k, r) # load_image_cache st0)\<rparr>"
    by (cases "on_heap (load_image_body E k) st") (auto simp: load_image_def lru_cache_miss)
  from body obtain h' where b: "load_image_body E k (heap st) = Inr (r, h')" and st0: "st0 = st\<lparr>heap := h'\<rparr>"
    by (cases "load_image_body E k (heap st)") (auto simp: on_heap_def)
  from load_image_body_grows [OF b] obtain ys where h': "h' = heap st @ ys" ..
  show ?thesis
    using ok by (rule ninepatch_cache_ok_later) (simp_all add: st' st0 h' nth_append)
qed

lemma ninepatch_cache_ok_text:
  assumes ok: "ninepatch_cache_ok st" and run: "text_fn E k st = Inr (r, st')"
  shows "ninepatch_cache_ok st'"
proof (cases "map_of (text_cache st) k")
  case (Some v)
  then have "st' = st\<lparr>text_cache := (k, v) # filter (\<lambda>e. fst e \<noteq> k) (text_cache st)\<rparr>"
    using run by (auto simp: text_fn_def lru_cache_hit)
  then show ?thesis using ok by (simp add: ninepatch_cache_ok_def)
next
  case None
  obtain msg color size_arg name_arg where k: "k = (msg, color, size_arg, name_arg)" by (cases k)
  define size_pt where "size_pt = (case size_arg of None \<Rightarrow> 20 | Some v \<Rightarrow> v)"
  define name where "name = (case name_arg of None \<Rightarrow> NoName | Some v \<Rightarrow> v)"
  have body: "text_body E k st =
      then_do (font E (size_pt, name) st) (\<lambda>(f, w).
        case Font_render E f msg color (heap w) of (r, h) \<Rightarrow> Inr (r, w\<lparr>heap := h\<rparr>))"
    by (simp add: text_body_def k size_pt_def name_def)
  from run None obtain st0 where tb: "text_body E k st = Inr (r, st0)"
    and st': "st' = st0\<lparr>text_cache := take 5000 ((k, r) # text_cache st0)\<rparr>"
    by (cases "text_body E k st") (auto simp: text_fn_def lru_cache_miss)
  from tb obtain f w where fr: "font E (size_pt, name) st = Inr (f, w)"
    and st0: "\<exists>S. st0 = w\<lparr>heap := heap w @ [S]\<rparr>"
    unfolding body
    by (cases "font E (size_pt, name) st")
       (auto simp: Font_render_def alloc_def split: prod.splits)
  have w: "w = st\<lparr>font_cache := font_cache w\<rparr>" using fr by (rule font_rest)
  have hw: "heap w = heap st" "ninepatch_cache w = ninepatch_cache st"
    by (metis w world.select_convs(1) world.surjective world.update_convs(3),
        metis w world.select_convs(5) world.surjective world.update_convs(3))
  from st0 obtain S where "st0 = w\<lparr>heap := heap w @ [S]\<rparr>" ..
  then have "heap st' = heap st @ [S]" "ninepatch_cache st' = ninepatch_cache st"
    by (simp_all add: st' hw)
  then show ?thesis
    using ok by (intro ninepatch_cache_ok_later [OF ok]) (simp_all add: nth_append)
qed

section \<open>The statements of the specification\<close>

subsection \<open>Centred blit\<close>

text \<open>
  C9.  For every rectangle, (cx, cy) its centre, \<open>blit_centered\<close> is the blit of the
  surface with its top-left corner at (cx - w div 2, cy - h div 2), w and h the size of
  the surface: on a screen that owns its pixels, the pixel (X, Y) of the screen inside
  that window is drawn from the pixel (X - left, Y - top) of the surface, one pixel for
  one pixel, and every other pixel of the screen is as before.  A 10 by 10 surface and a
  centre of (50, 50) give the corner (45, 45); the rectangle (50, 50, -5, -5) has the
  centre (47, 47) and gives the corner (42, 42).
\<close>

theorem blit_centered_top_left:
  assumes "center rect = (cx, cy)"
  shows "blit_centered screen surface rect h =
           blit screen surface (cx - width (h ! surface) div 2, cy - height (h ! surface) div 2) h \<and>
         (screen < length h \<and> mem (h ! screen) = Own f \<longrightarrow>
          (\<forall>X Y. read_px (blit_centered screen surface rect h) screen X Y =
             (if 0 \<le> X \<and> X < width (h ! screen) \<and> 0 \<le> Y \<and> Y < height (h ! screen) \<and>
                 cx - width (h ! surface) div 2 \<le> X \<and>
                 X < cx - width (h ! surface) div 2 + width (h ! surface) \<and>
                 cy - height (h ! surface) div 2 \<le> Y \<and>
                 Y < cy - height (h ! surface) div 2 + height (h ! surface)
              then with_alpha (srcalpha (h ! screen))
                     (blit_px (srcalpha (h ! surface))
                        (read_px h surface (X - (cx - width (h ! surface) div 2))
                                           (Y - (cy - height (h ! surface) div 2)))
                        (read_px h screen X Y))
              else read_px h screen X Y)))"
proof -
  have eq: "blit_centered screen surface rect h =
      blit screen surface (cx - width (h ! surface) div 2, cy - height (h ! surface) div 2) h"
    using assms by (simp add: blit_centered_def get_rect_center_def)
  show ?thesis
    unfolding eq by (intro conjI impI allI) (auto simp: read_px_blit_dest)
qed

theorem blit_centered_top_left_witness:
  "center (40, 40, 20, 20) = (50, 50) \<and>
   blit_centered 0 1 (40, 40, 20, 20) [ex_display, ex_icon] = blit 0 1 (45, 45) [ex_display, ex_icon] \<and>
   center (50, 50, - 5, - 5) = (47, 47) \<and>
   blit_centered 0 1 (50, 50, - 5, - 5) [ex_display, ex_icon] = blit 0 1 (42, 42) [ex_display, ex_icon] \<and>
   read_px (blit_centered 0 1 (40, 40, 20, 20) [ex_display, ex_icon]) 0 45 45 = (0, 0, 9, 255) \<and>
   read_px (blit_centered 0 1 (40, 40, 20, 20) [ex_display, ex_icon]) 0 54 54 = (9, 9, 9, 255) \<and>
   read_px (blit_centered 0 1 (40, 40, 20, 20) [ex_display, ex_icon]) 0 44 45 = (0, 0, 0, 255) \<and>
   read_px (blit_centered 0 1 (40, 40, 20, 20) [ex_display, ex_icon]) 0 55 54 = (0, 0, 0, 255)"
proof -
  let ?h = "[ex_display, ex_icon]"
  have hyp: "center (40, 40, 20, 20) = (50, 50)"
    by (simp add: center_def)
  have neg: "center (50, 50, - 5, - 5) = (47, 47)"
    by (simp add: center_def)
  have eq': "blit_centered 0 1 (50, 50, - 5, - 5) ?h = blit 0 1 (42, 42) ?h"
    using blit_centered_top_left [OF neg, where screen = 0 and surface = 1 and h = ?h]
    by (simp add: ex_icon_def)
  have scr: "0 < length ?h \<and> mem (?h ! 0) = Own (\<lambda>x y. (0, 0, 0, 255))"
    by (simp add: ex_display_def)
  note T = blit_centered_top_left [OF hyp, where screen = 0 and surface = 1 and h = ?h
      and f = "\<lambda>x y. (0, 0, 0, 255)"]
  have shape: "width (?h ! 1) = 10" "height (?h ! 1) = 10" "width (?h ! 0) = 100"
    "height (?h ! 0) = 100" "srcalpha (?h ! 0) = False" "srcalpha (?h ! 1) = False"
    by (simp_all add: ex_icon_def ex_display_def)
  have base: "read_px ?h 0 X Y = (0, 0, 0, 255)" "read_px ?h 1 X Y = (X, Y, 9, 255)" for X Y
    by (simp_all add: read_px_def owner_def raw_def with_alpha_def ex_icon_def ex_display_def)
  have eq: "blit_centered 0 1 (40, 40, 20, 20) ?h = blit 0 1 (45, 45) ?h"
    using T by (simp add: ex_icon_def)
  have px: "read_px (blit_centered 0 1 (40, 40, 20, 20) ?h) 0 X Y =
      (if 45 \<le> X \<and> X < 55 \<and> 45 \<le> Y \<and> Y < 55 then (X - 45, Y - 45, 9, 255) else (0, 0, 0, 255))"
    for X Y
  proof -
    have "read_px (blit_centered 0 1 (40, 40, 20, 20) ?h) 0 X Y =
       (if 0 \<le> X \<and> X < width (?h ! 0) \<and> 0 \<le> Y \<and> Y < height (?h ! 0) \<and>
           50 - width (?h ! 1) div 2 \<le> X \<and> X < 50 - width (?h ! 1) div 2 + width (?h ! 1) \<and>
           50 - height (?h ! 1) div 2 \<le> Y \<and> Y < 50 - height (?h ! 1) div 2 + height (?h ! 1)
        then with_alpha (srcalpha (?h ! 0))
               (blit_px (srcalpha (?h ! 1))
                  (read_px ?h 1 (X - (50 - width (?h ! 1) div 2)) (Y - (50 - height (?h ! 1) div 2)))
                  (read_px ?h 0 X Y))
        else read_px ?h 0 X Y)"
      using T scr by blast
    then show ?thesis
      unfolding shape base by (auto simp: blit_px_def with_alpha_def)
  qed
  have pxs: "read_px (blit_centered 0 1 (40, 40, 20, 20) ?h) 0 45 45 = (0, 0, 9, 255)"
    "read_px (blit_centered 0 1 (40, 40, 20, 20) ?h) 0 54 54 = (9, 9, 9, 255)"
    "read_px (blit_centered 0 1 (40, 40, 20, 20) ?h) 0 44 45 = (0, 0, 0, 255)"
    "read_px (blit_centered 0 1 (40, 40, 20, 20) ?h) 0 55 54 = (0, 0, 0, 255)"
    using px [of 45 45] px [of 54 54] px [of 44 45] px [of 55 54] by simp_all
  show ?thesis using hyp neg eq eq' pxs by blast
qed

subsection \<open>The default font\<close>

text \<open>
  C10.  \<open>font(size, None)\<close> resolves the name \<open>None\<close> to the path
  \<open>ROOT_DIR/wclib/assets/regular.ttf\<close>, the path of \<open>font(size, "regular")\<close>, and
  returns what the other returns: the font that \<open>pygame.font.Font\<close> loads from that
  file, or its exception.
\<close>

theorem font_None_is_regular:
  assumes "font_cache_ok E st"
  shows "font_path E NoName = Inr (ROOT_DIR E @ [''wclib'', ''assets'', ''regular.ttf'']) \<and>
         font_path E NoName = font_path E (Name ''regular'') \<and>
         map_sum id fst (font E (size_pt, NoName) st) =
           map_sum id fst (font E (size_pt, Name ''regular'') st) \<and>
         map_sum id fst (font E (size_pt, NoName) st) =
           pygame_font_Font E (ROOT_DIR E @ [''wclib'', ''assets'', ''regular.ttf'']) size_pt"
proof -
  have "map_sum id fst (font_body E (size_pt, NoName) st) =
      pygame_font_Font E (ROOT_DIR E @ [''wclib'', ''assets'', ''regular.ttf'']) size_pt"
    by (cases "pygame_font_Font E (ROOT_DIR E @ [''wclib'', ''assets'', ''regular.ttf'']) size_pt")
       (simp_all add: font_body_def font_path_def or_regular_def)
  then show ?thesis
    using font_result [OF assms, of "(size_pt, NoName)"]
      font_result [OF assms, of "(size_pt, Name ''regular'')"]
    by (simp add: font_body_NoName) (simp add: font_path_def or_regular_def)
qed

theorem font_None_is_regular_witness:
  "font_cache_ok ex_E ex_world \<and>
   font_path ex_E NoName = Inr [''repo'', ''wclib'', ''assets'', ''regular.ttf''] \<and>
   map_sum id fst (font ex_E (20, NoName) ex_world) = Inr \<lparr>ttf = ''glyphs'', pt_size = 20\<rparr> \<and>
   map_sum id fst (font ex_E (20, Name ''regular'') ex_world) = Inr \<lparr>ttf = ''glyphs'', pt_size = 20\<rparr>"
proof -
  have ok: "font_cache_ok ex_E ex_world"
    by (simp add: font_cache_ok_def ex_world_def)
  have root: "ROOT_DIR ex_E = [''repo'']"
    by (simp add: ex_E_def)
  have regular: "pygame_font_Font ex_E [''repo'', ''wclib'', ''assets'', ''regular.ttf''] 20 =
      Inr \<lparr>ttf = ''glyphs'', pt_size = 20\<rparr>"
    by (simp add: pygame_font_Font_def fits_c_int_def ex_E_def)
  show ?thesis
    using font_None_is_regular [OF ok, of 20] ok by (auto simp: root regular)
qed

subsection \<open>The nine-patch\<close>



text \<open>
  C8.  For a valid source and target size \<open>ninepatch\<close> returns, and every surface that
  existed before the call, the source among them, is what it was: the heap before is
  the beginning of the heap after, every pixel of the source reads as before, and
  besides new surfaces the call only writes its own memo table.  No condition on the
  cache is needed.
\<close>

theorem ninepatch_source_unchanged:
  assumes "wf_heap (heap st)" and "surface < length (heap st)"
    and "2 * (width (heap st ! surface) div 3) \<le> w" and "fits_c_int w"
    and "2 * (height (heap st ! surface) div 3) \<le> ht" and "fits_c_int ht"
  shows "\<exists>r st'. ninepatch E (surface, (x, y, w, ht)) st = Inr (r, st') \<and>
           take (length (heap st)) (heap st') = heap st \<and>
           (\<forall>pos. get_at (heap st') surface pos = get_at (heap st) surface pos) \<and>
           st' = st\<lparr>heap := heap st', ninepatch_cache := ninepatch_cache st'\<rparr>"
proof -
  have W: "2 * (width (heap st ! surface) div 3) \<le> c_int w"
    and H: "2 * (height (heap st ! surface) div 3) \<le> c_int ht"
    using assms(3-6) by (simp_all add: c_int_fits)
  from ninepatch_frame [OF assms(1,2) W H, of E x y]
  obtain r st' where run: "ninepatch E (surface, (x, y, w, ht)) st = Inr (r, st')"
    and le: "length (heap st) \<le> length (heap st')"
    and frame: "\<forall>q < length (heap st). heap st' ! q = heap st ! q"
    and rest: "st' = st\<lparr>heap := heap st', ninepatch_cache := ninepatch_cache st'\<rparr>"
    by blast
  have pre: "take (length (heap st)) (heap st') = heap st"
    using le frame by (intro nth_equalityI) simp_all
  have "heap st' ! surface = heap st ! surface" using frame assms(2) by simp
  then have "get_at (heap st') surface pos = get_at (heap st) surface pos" for pos
    by (cases pos) (simp add: get_at_def read_px_frame [OF assms(1,2) le frame])
  then show ?thesis using run pre rest by blast
qed

theorem ninepatch_source_unchanged_witness:
  "wf_heap (heap ex_world) \<and> 0 < length (heap ex_world) \<and>
   2 * (width (heap ex_world ! 0) div 3) \<le> 30 \<and> 2 * (height (heap ex_world ! 0) div 3) \<le> 30 \<and>
   fits_c_int 30 \<and>
   (\<exists>r st'. ninepatch ex_E (0, (0, 0, 30, 30)) ex_world = Inr (r, st') \<and>
      take (length (heap ex_world)) (heap st') = heap ex_world \<and>
      (\<forall>pos. get_at (heap st') 0 pos = get_at (heap ex_world) 0 pos) \<and>
      st' = ex_world\<lparr>heap := heap st', ninepatch_cache := ninepatch_cache st'\<rparr>)"
proof -
  have sz: "2 * (width (heap ex_world ! 0) div 3) \<le> 30" "2 * (height (heap ex_world ! 0) div 3) \<le> 30"
    "fits_c_int 30"
    by (simp_all add: ex_world_facts fits_c_int_def)
  show ?thesis
    using ninepatch_source_unchanged [OF ex_world_facts(1,2) sz(1,3,2,3), of ex_E 0 0]
      ex_world_facts(1,2) sz by blast
qed




text \<open>
  C3.  As the specification has it, the rightmost and the bottommost regions would take
  the remainder of a source whose size is not a multiple of 3.  They do not: on the 10
  by 10 button the regions of the right column and of the bottom row are 3 wide and 3
  high like the others, not 4.
\<close>

theorem ninepatch_regions_counterexample:
  "width ([ex_button10] ! 0) = 10 \<and>
   (case ninepatch_body ex_E (0, (0, 0, 30, 30)) [ex_button10] of
      Inl e \<Rightarrow> False
    | Inr (r, h') \<Rightarrow>
        width (h' ! (r + 3)) = 3 \<and> width (h' ! (r + 6)) = 3 \<and> width (h' ! (r + 9)) = 3 \<and>
        height (h' ! (r + 7)) = 3 \<and> height (h' ! (r + 8)) = 3 \<and> height (h' ! (r + 9)) = 3 \<and>
        width (h' ! (r + 3)) \<noteq> 10 div 3 + 10 mod 3 \<and> height (h' ! (r + 9)) \<noteq> 10 div 3 + 10 mod 3)"
proof -
  have sz: "2 * (width ([ex_button10] ! 0) div 3) \<le> c_int 30"
    "2 * (height ([ex_button10] ! 0) div 3) \<le> c_int 30"
    by (simp_all add: ex_button10_def c_int_def)
  from ninepatch_body_regions [OF ex_button10_facts(1,2) sz, of ex_E 0 0]
  obtain r h' where run: "ninepatch_body ex_E (0, (0, 0, 30, 30)) [ex_button10] = Inr (r, h')"
    and reg: "\<forall>c < 3. \<forall>q < 3.
              width (h' ! (r + 1 + 3 * q + c)) = width ([ex_button10] ! 0) div 3 \<and>
              height (h' ! (r + 1 + 3 * q + c)) = height ([ex_button10] ! 0) div 3 \<and>
              (\<forall>i j. read_px h' (r + 1 + 3 * q + c) i j =
                 read_px [ex_button10] 0 (int c * (width ([ex_button10] ! 0) div 3) + i)
                   (int q * (height ([ex_button10] ! 0) div 3) + j))"
    by blast
  have "width (h' ! (r + 3)) = 3" "width (h' ! (r + 6)) = 3" "width (h' ! (r + 9)) = 3"
    "height (h' ! (r + 7)) = 3" "height (h' ! (r + 8)) = 3" "height (h' ! (r + 9)) = 3"
    using reg [rule_format, of 2 0] reg [rule_format, of 2 1] reg [rule_format, of 2 2]
      reg [rule_format, of 0 2] reg [rule_format, of 1 2]
    unfolding ex_button10_facts(3,4) by (simp_all add: eval_nat_numeral)
  then show ?thesis using run ex_button10_facts(3) by simp
qed

text \<open>
  C3, amended.  \<open>ninepatch\<close> cuts nine regions out of the source, the subsurfaces it
  creates right after the result \<open>r\<close>, row by row: the region of column \<open>c\<close> and row \<open>q\<close>
  is the surface \<open>r + 1 + 3 q + c\<close>.  Every region, the rightmost and the bottommost ones
  too, is a third (rounded down) of the source wide and high, and its pixel (i, j) is the
  pixel (c W div 3 + i, q H div 3 + j) of the source.  The remainder columns and rows of
  a source whose size is not a multiple of 3 are in no region.  The target size is the
  one that the rectangle has as a \<open>pygame.Rect\<close>, for every tuple.
\<close>

theorem ninepatch_regions:
  assumes "wf_heap h" and "surface < length h"
    and "2 * (width (h ! surface) div 3) \<le> c_int w" and "2 * (height (h ! surface) div 3) \<le> c_int ht"
  shows "\<exists>r h'. ninepatch_body E (surface, (x, y, w, ht)) h = Inr (r, h') \<and>
           (\<forall>c < 3. \<forall>q < 3.
              width (h' ! (r + 1 + 3 * q + c)) = width (h ! surface) div 3 \<and>
              height (h' ! (r + 1 + 3 * q + c)) = height (h ! surface) div 3 \<and>
              (\<forall>i j. read_px h' (r + 1 + 3 * q + c) i j =
                 read_px h surface (int c * (width (h ! surface) div 3) + i)
                   (int q * (height (h ! surface) div 3) + j)))"
  using assms by (rule ninepatch_body_regions)

theorem ninepatch_regions_witness:
  "wf_heap [ex_button10] \<and> 0 < length [ex_button10] \<and>
   2 * (width ([ex_button10] ! 0) div 3) \<le> c_int 30 \<and> 2 * (height ([ex_button10] ! 0) div 3) \<le> c_int 30 \<and>
   (\<exists>r h'. ninepatch_body ex_E (0, (0, 0, 30, 30)) [ex_button10] = Inr (r, h') \<and>
      width (h' ! (r + 1 + 3 * 2 + 2)) = 3 \<and> height (h' ! (r + 1 + 3 * 2 + 2)) = 3 \<and>
      read_px h' (r + 1 + 3 * 2 + 2) 2 2 = read_px [ex_button10] 0 8 8)"
proof -
  have sz: "2 * (width ([ex_button10] ! 0) div 3) \<le> c_int 30"
    "2 * (height ([ex_button10] ! 0) div 3) \<le> c_int 30"
    by (simp_all add: ex_button10_def c_int_def)
  from ninepatch_regions [OF ex_button10_facts(1,2) sz, of ex_E 0 0]
  obtain r h' where run: "ninepatch_body ex_E (0, (0, 0, 30, 30)) [ex_button10] = Inr (r, h')"
    and reg: "\<forall>c < 3. \<forall>q < 3.
              width (h' ! (r + 1 + 3 * q + c)) = width ([ex_button10] ! 0) div 3 \<and>
              height (h' ! (r + 1 + 3 * q + c)) = height ([ex_button10] ! 0) div 3 \<and>
              (\<forall>i j. read_px h' (r + 1 + 3 * q + c) i j =
                 read_px [ex_button10] 0 (int c * (width ([ex_button10] ! 0) div 3) + i)
                   (int q * (height ([ex_button10] ! 0) div 3) + j))"
    by blast
  have "width (h' ! (r + 1 + 3 * 2 + 2)) = 3 \<and> height (h' ! (r + 1 + 3 * 2 + 2)) = 3 \<and>
      read_px h' (r + 1 + 3 * 2 + 2) 2 2 = read_px [ex_button10] 0 8 8"
    using reg [rule_format, of 2 2] unfolding ex_button10_facts(3,4) by simp
  then show ?thesis using run sz ex_button10_facts(1,2) by blast
qed

subsection \<open>The caches\<close>

text \<open>
  C4.  As the specification has it, the cache of \<open>ninepatch\<close> would never evict an entry.
  It does: the decorator is \<open>lru_cache(100)\<close>.  After the 101 calls \<open>ex_keys\<close> on the
  button, each with a rectangle of its own and each returning, the cache holds 100
  entries and the key of the first call is not among them; the same call again is
  computed again and returns a surface that did not exist before, not the surface 2 that
  the first call returned.
\<close>

theorem ninepatch_cache_counterexample:
  "distinct ex_keys \<and> hd ex_keys = (0, (0, 0, 6, 6)) \<and>
   returned (ninepatch ex_E) ex_keys ex_world = ex_keys \<and>
   length (ninepatch_cache (calls (ninepatch ex_E) ex_keys ex_world)) = 100 \<and>
   map_of (ninepatch_cache (calls (ninepatch ex_E) ex_keys ex_world)) (0, (0, 0, 6, 6)) = None \<and>
   map_sum id fst (ninepatch ex_E (0, (0, 0, 6, 6)) ex_world) = Inr 2 \<and>
   map_sum id fst (ninepatch ex_E (0, (0, 0, 6, 6)) (calls (ninepatch ex_E) ex_keys ex_world)) =
     Inr (length (heap (calls (ninepatch ex_E) ex_keys ex_world))) \<and>
   2 < length (heap (calls (ninepatch ex_E) ex_keys ex_world))"
proof -
  define fin where "fin = calls (ninepatch ex_E) ex_keys ex_world"
  note R = ninepatch_calls_return [OF ex_world_facts(1) ex_keys_facts(1), of ex_E]
  have ret: "returned (ninepatch ex_E) ex_keys ex_world = ex_keys" using R by simp
  have keys: "map fst (ninepatch_cache fin) = take 100 (rev ex_keys)"
    unfolding fin_def ninepatch_calls_keys [OF ex_world_facts(7)] ret
    by (simp add: distinct_remdups_id [OF ex_keys_facts(2)])
  have "length (map fst (ninepatch_cache fin)) = 100"
    unfolding keys by (simp add: ex_keys_facts(3))
  then have len: "length (ninepatch_cache fin) = 100" by simp
  have "(0, (0, 0, 6, 6)) \<notin> set (map fst (ninepatch_cache fin))"
    unfolding keys by (rule ex_keys_facts(5))
  then have miss: "map_of (ninepatch_cache fin) (0, (0, 0, 6, 6)) = None"
    by (simp add: map_of_eq_None_iff)
  have c6: "c_int 6 = 6" by (simp add: c_int_def)
  have sz: "2 * (width (heap ex_world ! 0) div 3) \<le> c_int 6"
    "2 * (height (heap ex_world ! 0) div 3) \<le> c_int 6"
    by (simp_all add: ex_world_facts c6)
  have first: "map_sum id fst (ninepatch ex_E (0, (0, 0, 6, 6)) ex_world) = Inr 2"
    using ninepatch_miss [OF ex_world_facts(1,2) sz, of 0 0 ex_E] ex_world_facts(7)
    by (auto simp: ex_world_def)
  have wf: "wf_heap (heap fin)" and le: "length (heap ex_world) \<le> length (heap fin)"
    and frame: "\<forall>q < length (heap ex_world). heap fin ! q = heap ex_world ! q"
    using R unfolding fin_def by simp_all
  have src: "0 < length (heap fin)" "heap fin ! 0 = heap ex_world ! 0"
    using le frame ex_world_facts(2) by auto
  have sz': "2 * (width (heap fin ! 0) div 3) \<le> c_int 6"
    "2 * (height (heap fin ! 0) div 3) \<le> c_int 6"
    unfolding src using sz by simp_all
  have again: "map_sum id fst (ninepatch ex_E (0, (0, 0, 6, 6)) fin) = Inr (length (heap fin))"
    using ninepatch_miss [OF wf src(1) sz' miss, of ex_E] by auto
  have "ex_keys \<noteq> []" using ex_keys_facts(3) by auto
  then have split: "ex_keys = hd ex_keys # tl ex_keys" by simp
  have valid: "\<forall>(s, (x, y, w, ht)) \<in> set (hd ex_keys # tl ex_keys). s < length (heap ex_world) \<and>
      2 * (width (heap ex_world ! s) div 3) \<le> c_int w \<and> 2 * (height (heap ex_world ! s) div 3) \<le> c_int ht"
    unfolding split [symmetric] by (rule ex_keys_facts(1))
  have "length (heap ex_world) + 15 \<le>
      length (heap (calls (ninepatch ex_E) (hd ex_keys # tl ex_keys) ex_world))"
    by (rule ninepatch_calls_grow [OF ex_world_facts(1) valid ex_world_facts(7)])
  then have "length (heap ex_world) + 15 \<le> length (heap fin)"
    unfolding split [symmetric] fin_def .
  then have grow: "2 < length (heap fin)" by simp
  show ?thesis
    using ex_keys_facts(2,4) ret len miss first again grow unfolding fin_def by blast
qed

text \<open>
  C4, amended.  The cache of \<open>ninepatch\<close> is bounded: from an empty cache, after any
  calls, it holds at most 100 entries, the keys of the last 100 different calls that
  returned, the most recent first; the entry that goes when there would be 101 is the
  least recently used.  A call with a key that is still in the cache returns the cached
  surface and computes nothing: the heap is as before.
\<close>

theorem ninepatch_cache_bounded:
  assumes "ninepatch_cache st = []"
  shows "length (ninepatch_cache (calls (ninepatch E) ks st)) \<le> 100 \<and>
         map fst (ninepatch_cache (calls (ninepatch E) ks st)) =
           take 100 (rev (remdups (returned (ninepatch E) ks st))) \<and>
         (\<forall>k r. map_of (ninepatch_cache (calls (ninepatch E) ks st)) k = Some r \<longrightarrow>
            (\<exists>st'. ninepatch E k (calls (ninepatch E) ks st) = Inr (r, st') \<and>
                   heap st' = heap (calls (ninepatch E) ks st)))"
proof -
  have keys: "map fst (ninepatch_cache (calls (ninepatch E) ks st)) =
      take 100 (rev (remdups (returned (ninepatch E) ks st)))"
    using assms by (rule ninepatch_calls_keys)
  have "length (map fst (ninepatch_cache (calls (ninepatch E) ks st))) \<le> 100"
    unfolding keys by simp
  then have "length (ninepatch_cache (calls (ninepatch E) ks st)) \<le> 100" by simp
  then show ?thesis using keys by (simp add: ninepatch_hit)
qed

theorem ninepatch_cache_bounded_witness:
  "ninepatch_cache ex_world = [] \<and>
   length (ninepatch_cache (calls (ninepatch ex_E) ex_keys ex_world)) \<le> 100 \<and>
   map fst (ninepatch_cache (calls (ninepatch ex_E) ex_keys ex_world)) =
     take 100 (rev (remdups (returned (ninepatch ex_E) ex_keys ex_world)))"
  using ninepatch_cache_bounded [OF ex_world_facts(7), of ex_E ex_keys] ex_world_facts(7) by blast

text \<open>
  C5.  The cache of \<open>text\<close> is bounded at 5000 entries with least-recently-used
  eviction: from an empty cache, after any calls, it holds at most 5000 entries, the
  keys of the last 5000 different calls that returned, the most recent first; and one
  more call that returns puts its key in front and, of what would be 5001 keys, drops
  the last one, the least recently used.
\<close>

theorem text_cache_lru:
  assumes "text_cache st = []"
  shows "length (text_cache (calls (text_fn E) ks st)) \<le> 5000 \<and>
         map fst (text_cache (calls (text_fn E) ks st)) =
           take 5000 (rev (remdups (returned (text_fn E) ks st))) \<and>
         (\<forall>k r st'. text_fn E k (calls (text_fn E) ks st) = Inr (r, st') \<longrightarrow>
            map fst (text_cache st') =
              take 5000 (k # removeAll k (map fst (text_cache (calls (text_fn E) ks st)))))"
proof -
  define st1 where "st1 = calls (text_fn E) ks st"
  have keys: "map fst (text_cache st1) = take 5000 (rev (remdups (returned (text_fn E) ks st)))"
    unfolding st1_def using assms by (rule text_calls_keys)
  have d: "distinct (map fst (text_cache st1))" unfolding keys by simp
  have "length (map fst (text_cache st1)) \<le> 5000" unfolding keys by simp
  then have l: "length (text_cache st1) \<le> 5000" by simp
  have "map fst (text_cache st') = take 5000 (k # removeAll k (map fst (text_cache st1)))"
    if run: "text_fn E k st1 = Inr (r, st')" for k r st'
  proof -
    have "map fst (text_cache st') = used 5000 k (map fst (text_cache st1))"
    proof (rule lru_cache_keys [where put = "\<lambda>c w. w\<lparr>text_cache := c\<rparr>" and f = "text_body E"
          and v = r])
      show "text_cache (t\<lparr>text_cache := c\<rparr>) = c" for c t by simp
      show "text_cache t = text_cache st1" if "text_body E k st1 = Inr (u, t)" for u t
        using that by (rule text_body_cache)
      show "distinct (map fst (text_cache st1))" by (rule d)
      show "length (text_cache st1) \<le> 5000" by (rule l)
      show "lru_cache 5000 text_cache (\<lambda>c w. w\<lparr>text_cache := c\<rparr>) (text_body E) k st1 = Inr (r, st')"
        using run by (simp add: text_fn_def)
    qed
    then show ?thesis by (simp add: used_def)
  qed
  then show ?thesis using l keys unfolding st1_def by blast
qed

theorem text_cache_lru_witness:
  "text_cache ex_world = [] \<and>
   returned (text_fn ex_E)
     [(''a'', (1, 2, 3, 255), None, None), (''b'', (1, 2, 3, 255), Some 30, Some (Name ''regular'')),
      (''a'', (1, 2, 3, 255), None, None)] ex_world =
     [(''a'', (1, 2, 3, 255), None, None), (''b'', (1, 2, 3, 255), Some 30, Some (Name ''regular'')),
      (''a'', (1, 2, 3, 255), None, None)] \<and>
   map fst (text_cache (calls (text_fn ex_E)
     [(''a'', (1, 2, 3, 255), None, None), (''b'', (1, 2, 3, 255), Some 30, Some (Name ''regular'')),
      (''a'', (1, 2, 3, 255), None, None)] ex_world)) =
     [(''a'', (1, 2, 3, 255), None, None), (''b'', (1, 2, 3, 255), Some 30, Some (Name ''regular''))]"
proof -
  let ?ks = "[(''a'', (1, 2, 3, 255), None, None), (''b'', (1, 2, 3, 255), Some 30, Some (Name ''regular'')),
      (''a'', (1 :: int, 2 :: int, 3 :: int, 255 :: int), None, None)]"
  have e: "text_cache ex_world = []" by (simp add: ex_world_def)
  have r: "returned (text_fn ex_E) ?ks ex_world = ?ks"
    by (simp add: text_fn_def lru_cache_def text_body_def font_def font_body_def font_path_def
        or_regular_def pygame_font_Font_def fits_c_int_def Font_render_def alloc_def ex_E_def
        ex_world_def)
  show ?thesis
    using text_cache_lru [OF e, of ex_E ?ks] e r by simp
qed





end
